theory Spec2Isabelle
  imports Complex_Main
begin

section \<open>JavaScript values as the comparison view receives them\<close>

text \<open>
  \<^verbatim>\<open>TestComparison.jsx\<close> reads the result of the \<^verbatim>\<open>compareTestRuns\<close> query: a
  loosely typed JSON document. The values below are the JSON values plus
  \<^verbatim>\<open>undefined\<close> (what reading an absent property gives). An object is the list of
  its own properties in enumeration order; its keys are distinct.

  Numbers are IEEE doubles. A finite number is held as the rational it denotes, and
  every arithmetic operation rounds its exact result to the nearest double, to the even
  one at a tie, and to an infinity beyond the largest double (\<open>to_double\<close> below); the
  three non-finite values are kept. Negative zero is identified with zero: the two
  differ only as a divisor, and the component divides by a cost or a token total only
  after it has found it truthy.
  Strings are byte strings (UTF-8): the two arrows are three bytes each.
\<close>

datatype error = TypeError | SyntaxError

datatype jsnum = Fin rat | NaN | PInf | NInf

datatype jsval =
    Undefined
  | Null
  | Bool bool
  | Num jsnum
  | Str string
  | Arr "jsval list"
  | Obj "(string \<times> jsval) list"

definition rbind :: "error + 'a \<Rightarrow> ('a \<Rightarrow> error + 'b) \<Rightarrow> error + 'b" where
  "rbind m f = (case m of Inl e \<Rightarrow> Inl e | Inr x \<Rightarrow> f x)"

fun map_result :: "('a \<Rightarrow> error + 'b) \<Rightarrow> 'a list \<Rightarrow> error + 'b list" where
  "map_result f [] = Inr []"
| "map_result f (x # xs) =
     (case f x of Inl e \<Rightarrow> Inl e
      | Inr y \<Rightarrow> (case map_result f xs of Inl e \<Rightarrow> Inl e | Inr ys \<Rightarrow> Inr (y # ys)))"

subsection \<open>Truthiness and property reads\<close>

fun truthy :: "jsval \<Rightarrow> bool" where
  "truthy Undefined = False"
| "truthy Null = False"
| "truthy (Bool b) = b"
| "truthy (Num n) = (n \<noteq> Fin 0 \<and> n \<noteq> NaN)"
| "truthy (Str s) = (s \<noteq> [])"
| "truthy (Arr xs) = True"
| "truthy (Obj kvs) = True"

fun nullish :: "jsval \<Rightarrow> bool" where
  "nullish Undefined = True"
| "nullish Null = True"
| "nullish v = False"

fun show_nat :: "nat \<Rightarrow> string" where
  "show_nat n = (if n < 10 then [''0123456789'' ! n]
                 else show_nat (n div 10) @ [''0123456789'' ! (n mod 10)])"

declare show_nat.simps [simp del]

text \<open>
  \<^verbatim>\<open>Object.entries(v)\<close>: the own enumerable properties. An array and a string
  have their indices as keys.
\<close>

fun own_entries :: "jsval \<Rightarrow> (string \<times> jsval) list" where
  "own_entries (Obj kvs) = kvs"
| "own_entries (Arr xs) = zip (map show_nat [0..<length xs]) xs"
| "own_entries (Str s) = zip (map show_nat [0..<length s]) (map (\<lambda>c. Str [c]) s)"
| "own_entries v = []"

text \<open>
  \<^verbatim>\<open>v[k]\<close> on a value that is neither null nor undefined, for the keys this
  component reads: the names \<^verbatim>\<open>status\<close>, \<^verbatim>\<open>test\<close>, \<^verbatim>\<open>baseline\<close>, \<^verbatim>\<open>accuracy\<close>,
  \<^verbatim>\<open>cost\<close>, \<^verbatim>\<open>total_cost\<close>, ... and the own keys of a usage document. None of them
  is defined on a built-in prototype, so the read is a lookup among the own properties
  (\<^verbatim>\<open>length\<close> of a string or an array included).
\<close>

fun own_length :: "jsval \<Rightarrow> jsval option" where
  "own_length (Str s) = Some (Num (Fin (of_nat (length s))))"
| "own_length (Arr xs) = Some (Num (Fin (of_nat (length xs))))"
| "own_length v = None"

definition read_prop :: "jsval \<Rightarrow> string \<Rightarrow> jsval" where
  "read_prop v k =
     (case map_of (own_entries v) k of
        Some x \<Rightarrow> x
      | None \<Rightarrow> (if k = ''length'' then (case own_length v of Some n \<Rightarrow> n | None \<Rightarrow> Undefined)
                 else Undefined))"

definition get :: "jsval \<Rightarrow> string \<Rightarrow> error + jsval" where
  \<comment> \<open>the read \<^verbatim>\<open>v.k\<close>: a TypeError on null and undefined\<close>
  "get v k = (if nullish v then Inl TypeError else Inr (read_prop v k))"

definition oget :: "jsval \<Rightarrow> string \<Rightarrow> jsval" where
  \<comment> \<open>the read \<^verbatim>\<open>v?.k\<close>: undefined on null and undefined\<close>
  "oget v k = (if nullish v then Undefined else read_prop v k)"

fun str_includes :: "string \<Rightarrow> string \<Rightarrow> bool" where
  \<comment> \<open>the test \<^verbatim>\<open>s.includes(pat)\<close>\<close>
  "str_includes [] pat = (pat = [])"
| "str_includes (c # s) pat = (take (length pat) (c # s) = pat \<or> str_includes s pat)"

subsection \<open>Doubles\<close>

text \<open>
  Rounding to the nearest double. A positive rational \<open>a\<close> lies in one binade, from
  \<^verbatim>\<open>2^e\<close> up to \<^verbatim>\<open>2^(e+1)\<close>; the doubles around it are the multiples of its quantum,
  \<^verbatim>\<open>2^(e-52)\<close>, and of \<^verbatim>\<open>2^(-1074)\<close> in the subnormal range. The nearest multiple is
  taken, the even one at a tie; a result of \<^verbatim>\<open>2^1024\<close> or more is an infinity.
\<close>

fun floor_log2 :: "nat \<Rightarrow> nat" where
  "floor_log2 n = (if n < 2 then 0 else Suc (floor_log2 (n div 2)))"

declare floor_log2.simps [simp del]

definition binade :: "rat \<Rightarrow> int" where
  \<comment> \<open>for a positive \<open>a\<close>, the exponent of the largest power of two that is at most \<open>a\<close>\<close>
  "binade a =
     (if 1 \<le> a then int (floor_log2 (nat \<lfloor>a\<rfloor>))
      else - int (Suc (floor_log2 (nat \<lceil>1 / a\<rceil> - 1))))"

definition quantum :: "rat \<Rightarrow> int" where
  "quantum a = max (binade a - 52) (- 1074)"

definition nearest_even :: "rat \<Rightarrow> int" where
  "nearest_even z =
     (let f = \<lfloor>z\<rfloor>; r = z - of_int f
      in if r < 1 / 2 then f else if 1 / 2 < r then f + 1 else if even f then f else f + 1)"

fun num_neg :: "jsnum \<Rightarrow> jsnum" where
  "num_neg (Fin a) = Fin (- a)"
| "num_neg NaN = NaN"
| "num_neg PInf = NInf"
| "num_neg NInf = PInf"

definition round_positive :: "rat \<Rightarrow> jsnum" where
  \<comment> \<open>the double nearest to a positive rational\<close>
  "round_positive a =
     (let e = quantum a; m = nearest_even (a / 2 powi e)
      in if 971 < e \<or> (e = 971 \<and> 2 ^ 53 \<le> m) then PInf else Fin (of_int m * 2 powi e))"

definition to_double :: "rat \<Rightarrow> jsnum" where
  "to_double x =
     (if x = 0 then Fin 0
      else if 0 < x then round_positive x
      else num_neg (round_positive (- x)))"

definition double :: "rat \<Rightarrow> bool" where
  \<comment> \<open>the rational is a double: rounding leaves it as it is\<close>
  "double x = (to_double x = Fin x)"

definition settled :: "jsnum \<Rightarrow> bool" where
  \<comment> \<open>a number as the browser holds it: a double, or one of the non-finite values\<close>
  "settled n = (case n of Fin y \<Rightarrow> double y | _ \<Rightarrow> True)"

subsection \<open>Numbers and their text\<close>

definition up_arrow :: string where
  "up_arrow = [CHR 0x20, CHR 0xE2, CHR 0x86, CHR 0x91]"

definition down_arrow :: string where
  "down_arrow = [CHR 0x20, CHR 0xE2, CHR 0x86, CHR 0x93]"

definition fixed_digits :: "nat \<Rightarrow> rat \<Rightarrow> string" where
  \<comment> \<open>the digits of \<^verbatim>\<open>x.toFixed(d)\<close>: the nearest multiple of \<open>10\<^sup>-\<^sup>d\<close>, the larger
      one at a tie on the magnitude, and the sign of \<open>x\<close>\<close>
  "fixed_digits d x =
     (let n = nat \<lfloor>\<bar>x\<bar> * 10 ^ d + 1 / 2\<rfloor>;
          s = show_nat n;
          m = replicate (Suc d - length s) (CHR ''0'') @ s;
          k = length m - d
      in (if x < 0 then ''-'' else '''') @ take k m @ (if d = 0 then '''' else ''.'' @ drop k m))"

text \<open>
  \<^verbatim>\<open>Number::toString\<close> prints the shortest decimal that rounds to the double. It is
  spelled out for the numbers this component prints through it: the doubles below
  \<^verbatim>\<open>10^13\<close> that a decimal with at most two places rounds to. Such a decimal has at most
  fifteen significant digits, so it is the only one of its length that rounds to the
  double, and its digits are printed. On every other finite number the function is left
  uninterpreted, so nothing below depends on it there.
\<close>

definition hundredths :: "rat \<Rightarrow> rat" where
  \<comment> \<open>the nearest decimal with two places\<close>
  "hundredths x = of_int \<lfloor>x * 100 + 1 / 2\<rfloor> / 100"

definition two_decimals :: "rat \<Rightarrow> bool" where
  "two_decimals x = (\<bar>x\<bar> < 10 ^ 13 \<and> to_double (hundredths x) = Fin x)"

definition short_digits :: "rat \<Rightarrow> string" where
  "short_digits x =
     (let h = nat \<lfloor>\<bar>x\<bar> * 100\<rfloor>; f = h mod 100
      in (if x < 0 then ''-'' else '''') @ show_nat (h div 100) @
         (if f = 0 then ''''
          else if f mod 10 = 0 then ''.'' @ show_nat (f div 10)
          else ''.'' @ show_nat (f div 10) @ show_nat (f mod 10)))"

fun number_to_string :: "jsnum \<Rightarrow> string" where
  "number_to_string NaN = ''NaN''"
| "number_to_string PInf = ''Infinity''"
| "number_to_string NInf = ''-Infinity''"
| "number_to_string (Fin x) =
     (if two_decimals x then short_digits (hundredths x) else undefined x)"

fun toFixed :: "nat \<Rightarrow> jsnum \<Rightarrow> string" where
  \<comment> \<open>the method \<^verbatim>\<open>Number.prototype.toFixed\<close>, for the digit counts 2 and 4 used here\<close>
  "toFixed d (Fin x) = (if \<bar>x\<bar> < 10 ^ 21 then fixed_digits d x else number_to_string (Fin x))"
| "toFixed d n = number_to_string n"

text \<open>
  Reading a number back from text: \<^verbatim>\<open>parseFloat\<close> and \<^verbatim>\<open>StringToNumber\<close>. Both are
  spelled out on the strings this component prints and reads back (an optional minus
  sign, digits, and optionally a point and more digits; and the three non-finite
  names), where they agree: the decimal is rounded to the nearest double. They are
  left uninterpreted on every other string.
\<close>

definition digit_value :: "char \<Rightarrow> nat option" where
  "digit_value c =
     map_of [(CHR ''0'', 0), (CHR ''1'', 1), (CHR ''2'', 2), (CHR ''3'', 3), (CHR ''4'', 4),
             (CHR ''5'', 5), (CHR ''6'', 6), (CHR ''7'', 7), (CHR ''8'', 8), (CHR ''9'', 9)] c"

fun digits_value :: "string \<Rightarrow> nat \<Rightarrow> nat option" where
  "digits_value [] acc = Some acc"
| "digits_value (c # cs) acc =
     (case digit_value c of None \<Rightarrow> None | Some v \<Rightarrow> digits_value cs (10 * acc + v))"

definition unsigned_decimal :: "string \<Rightarrow> rat option" where
  "unsigned_decimal s =
     (let ip = takeWhile (\<lambda>c. c \<noteq> CHR ''.'') s; r = dropWhile (\<lambda>c. c \<noteq> CHR ''.'') s
      in if ip = [] then None
         else (case (digits_value ip 0, digits_value (tl r) 0) of
                 (Some i, Some f) \<Rightarrow> Some (of_nat i + of_nat f / 10 ^ length (tl r))
               | _ \<Rightarrow> None))"

definition fixed_text_value :: "string \<Rightarrow> jsnum option" where
  "fixed_text_value s =
     (if s = ''NaN'' then Some NaN
      else if s = ''Infinity'' then Some PInf
      else if s = ''-Infinity'' then Some NInf
      else (case s of
              [] \<Rightarrow> None
            | c # cs \<Rightarrow>
                (if c = CHR ''-'' then map_option (\<lambda>x. to_double (- x)) (unsigned_decimal cs)
                 else map_option to_double (unsigned_decimal s))))"

definition parseFloat :: "string \<Rightarrow> jsnum" where
  "parseFloat s = (case fixed_text_value s of Some n \<Rightarrow> n | None \<Rightarrow> undefined s)"

definition string_to_number :: "string \<Rightarrow> jsnum" where
  "string_to_number s = (case fixed_text_value s of Some n \<Rightarrow> n | None \<Rightarrow> undefined s)"

subsection \<open>Coercions and arithmetic\<close>

text \<open>
  \<^verbatim>\<open>ToString\<close>. A plain object prints as \<^verbatim>\<open>[object Object]\<close> unless it has an own
  property \<^verbatim>\<open>toString\<close>: that property holds data, it cannot be called, and the
  conversion throws. An array joins its elements with commas, null and undefined
  elements as the empty string.
\<close>

fun to_string :: "jsval \<Rightarrow> error + string"
  and join_elements :: "jsval list \<Rightarrow> error + string" where
  "to_string Undefined = Inr ''undefined''"
| "to_string Null = Inr ''null''"
| "to_string (Bool b) = Inr (if b then ''true'' else ''false'')"
| "to_string (Num n) = Inr (number_to_string n)"
| "to_string (Str s) = Inr s"
| "to_string (Arr xs) = join_elements xs"
| "to_string (Obj kvs) =
     (if ''toString'' \<in> set (map fst kvs) then Inl TypeError else Inr ''[object Object]'')"
| "join_elements [] = Inr ''''"
| "join_elements (x # xs) =
     (case (if nullish x then Inr '''' else to_string x) of
        Inl e \<Rightarrow> Inl e
      | Inr s \<Rightarrow>
          (if xs = [] then Inr s
           else (case join_elements xs of Inl e \<Rightarrow> Inl e | Inr t \<Rightarrow> Inr (s @ '','' @ t))))"

fun to_primitive :: "jsval \<Rightarrow> error + jsval" where
  "to_primitive (Arr xs) = rbind (to_string (Arr xs)) (\<lambda>s. Inr (Str s))"
| "to_primitive (Obj kvs) = rbind (to_string (Obj kvs)) (\<lambda>s. Inr (Str s))"
| "to_primitive v = Inr v"

fun prim_to_number :: "jsval \<Rightarrow> jsnum" where
  "prim_to_number Undefined = NaN"
| "prim_to_number Null = Fin 0"
| "prim_to_number (Bool b) = Fin (if b then 1 else 0)"
| "prim_to_number (Num n) = n"
| "prim_to_number (Str s) = string_to_number s"
| "prim_to_number v = NaN"

definition to_number :: "jsval \<Rightarrow> error + jsnum" where
  "to_number v = rbind (to_primitive v) (\<lambda>p. Inr (prim_to_number p))"

fun num_add :: "jsnum \<Rightarrow> jsnum \<Rightarrow> jsnum" where
  "num_add (Fin a) (Fin b) = to_double (a + b)"
| "num_add NaN n = NaN"
| "num_add n NaN = NaN"
| "num_add PInf NInf = NaN"
| "num_add NInf PInf = NaN"
| "num_add PInf n = PInf"
| "num_add n PInf = PInf"
| "num_add NInf n = NInf"
| "num_add n NInf = NInf"

definition num_sub :: "jsnum \<Rightarrow> jsnum \<Rightarrow> jsnum" where
  "num_sub a b = num_add a (num_neg b)"

fun num_sign :: "jsnum \<Rightarrow> int" where
  "num_sign (Fin a) = (if a = 0 then 0 else if 0 < a then 1 else - 1)"
| "num_sign PInf = 1"
| "num_sign NInf = - 1"
| "num_sign NaN = 0"

fun num_mul :: "jsnum \<Rightarrow> jsnum \<Rightarrow> jsnum" where
  "num_mul (Fin a) (Fin b) = to_double (a * b)"
| "num_mul NaN n = NaN"
| "num_mul n NaN = NaN"
| "num_mul a b =
     (let s = num_sign a * num_sign b
      in if s = 0 then NaN else if 0 < s then PInf else NInf)"

fun num_div :: "jsnum \<Rightarrow> jsnum \<Rightarrow> jsnum" where
  "num_div (Fin a) (Fin b) =
     (if b = 0 then (if a = 0 then NaN else if 0 < a then PInf else NInf)
      else to_double (a / b))"
| "num_div NaN n = NaN"
| "num_div n NaN = NaN"
| "num_div (Fin a) n = Fin 0"
| "num_div PInf (Fin b) = (if b < 0 then NInf else PInf)"
| "num_div NInf (Fin b) = (if b < 0 then PInf else NInf)"
| "num_div a b = NaN"

fun num_abs :: "jsnum \<Rightarrow> jsnum" where
  "num_abs (Fin a) = Fin \<bar>a\<bar>"
| "num_abs NaN = NaN"
| "num_abs n = PInf"

fun positive :: "jsnum \<Rightarrow> bool" where
  \<comment> \<open>the test \<^verbatim>\<open>n > 0\<close>\<close>
  "positive (Fin a) = (0 < a)"
| "positive PInf = True"
| "positive n = False"

definition js_sub :: "jsval \<Rightarrow> jsval \<Rightarrow> error + jsnum" where
  "js_sub a b = rbind (to_number a) (\<lambda>x. rbind (to_number b) (\<lambda>y. Inr (num_sub x y)))"

definition js_mul :: "jsval \<Rightarrow> jsval \<Rightarrow> error + jsnum" where
  "js_mul a b = rbind (to_number a) (\<lambda>x. rbind (to_number b) (\<lambda>y. Inr (num_mul x y)))"

definition js_add :: "jsval \<Rightarrow> jsval \<Rightarrow> error + jsval" where
  \<comment> \<open>the sum \<^verbatim>\<open>a + b\<close>: concatenation as soon as one side is a string after \<^verbatim>\<open>ToPrimitive\<close>\<close>
  "js_add a b =
     rbind (to_primitive a) (\<lambda>p. rbind (to_primitive b) (\<lambda>q.
       (case (p, q) of
          (Str s, _) \<Rightarrow> rbind (to_string q) (\<lambda>t. Inr (Str (s @ t)))
        | (_, Str t) \<Rightarrow> rbind (to_string p) (\<lambda>s. Inr (Str (s @ t)))
        | _ \<Rightarrow> Inr (Num (num_add (prim_to_number p) (prim_to_number q))))))"

definition call_toFixed :: "jsval \<Rightarrow> nat \<Rightarrow> error + string" where
  \<comment> \<open>the call \<^verbatim>\<open>v.toFixed(d)\<close>: only a number has the method; on any other value the call
      throws (\<^verbatim>\<open>toFixed is not a function\<close>, or the read on null/undefined)\<close>
  "call_toFixed v d = (case v of Num n \<Rightarrow> Inr (toFixed d n) | _ \<Rightarrow> Inl TypeError)"

section \<open>The comparison view\<close>

text \<open>
  The component receives \<^verbatim>\<open>preSelectedTestRunIds\<close> and, from the query,
  \<^verbatim>\<open>comparisonData\<close> with its \<^verbatim>\<open>metrics\<close> (an object from run id to run record)
  and \<^verbatim>\<open>configs\<close>. A run's \<^verbatim>\<open>test\<close> and \<^verbatim>\<open>baseline\<close> documents arrive either
  as objects or as JSON text, which each row parses again. \<^verbatim>\<open>JSON.parse\<close> belongs
  to the platform and is left uninterpreted: a theorem about a document given as text
  says what it needs of the parse.
\<close>

definition JSON_parse :: "string \<Rightarrow> error + jsval" where
  "JSON_parse = undefined"

definition parsed :: "jsval \<Rightarrow> error + jsval" where
  \<comment> \<open>the step \<^verbatim>\<open>typeof x === 'string' ? JSON.parse(x) : x\<close>\<close>
  "parsed x = (case x of Str s \<Rightarrow> JSON_parse s | _ \<Rightarrow> Inr x)"

definition doc :: "jsval \<Rightarrow> string \<Rightarrow> error + jsval" where
  "doc testRun side = rbind (get testRun side) parsed"

subsection \<open>Complete and incomplete runs\<close>

fun filter_result :: "('a \<Rightarrow> error + bool) \<Rightarrow> 'a list \<Rightarrow> error + 'a list" where
  "filter_result p [] = Inr []"
| "filter_result p (x # xs) =
     (case p x of Inl e \<Rightarrow> Inl e
      | Inr b \<Rightarrow> (case filter_result p xs of Inl e \<Rightarrow> Inl e
                  | Inr ys \<Rightarrow> Inr (if b then x # ys else ys)))"

fun some_result :: "('a \<Rightarrow> error + bool) \<Rightarrow> 'a list \<Rightarrow> error + bool" where
  "some_result p [] = Inr False"
| "some_result p (x # xs) =
     (case p x of Inl e \<Rightarrow> Inl e | Inr b \<Rightarrow> (if b then Inr True else some_result p xs))"

definition status_is_COMPLETE :: "jsval \<Rightarrow> error + bool" where
  \<comment> \<open>the test \<^verbatim>\<open>testRun.status === 'COMPLETE'\<close>\<close>
  "status_is_COMPLETE testRun = rbind (get testRun ''status'') (\<lambda>s. Inr (s = Str ''COMPLETE''))"

definition completeTestRuns :: "jsval \<Rightarrow> error + (string \<times> jsval) list" where
  "completeTestRuns metrics =
     (if truthy metrics
      then filter_result (\<lambda>(testRunId, testRun). status_is_COMPLETE testRun) (own_entries metrics)
      else Inr [])"

definition hasIncompleteRuns :: "jsval \<Rightarrow> error + bool" where
  "hasIncompleteRuns metrics =
     (if truthy metrics
      then some_result (\<lambda>testRun. rbind (status_is_COMPLETE testRun) (\<lambda>b. Inr (\<not> b)))
             (map snd (own_entries metrics))
      else Inr False)"

subsection \<open>Cells\<close>

text \<open>
  A cell holds the value the row computes. The token rows call
  \<^verbatim>\<open>toLocaleString()\<close> on theirs, whose digits depend on the browser's locale: such a
  cell keeps the value under \<open>Localized\<close>.
\<close>

datatype cell = Shown jsval | Localized jsval

abbreviation Text :: "string \<Rightarrow> cell" where
  "Text s \<equiv> Shown (Str s)"

abbreviation NA :: cell where
  "NA \<equiv> Text ''N/A''"

definition or_NA :: "jsval \<Rightarrow> cell" where
  \<comment> \<open>the value \<^verbatim>\<open>v || 'N/A'\<close>\<close>
  "or_NA v = (if truthy v then Shown v else NA)"

definition path :: "jsval \<Rightarrow> string \<Rightarrow> string \<Rightarrow> error + jsval" where
  \<comment> \<open>the read \<^verbatim>\<open>d.a.b\<close>\<close>
  "path d a b = rbind (get d a) (\<lambda>x. get x b)"

definition opath :: "jsval \<Rightarrow> string \<Rightarrow> string \<Rightarrow> jsval" where
  \<comment> \<open>the read \<^verbatim>\<open>d?.a?.b\<close>\<close>
  "opath d a b = oget (oget d a) b"

definition percent :: "jsval \<Rightarrow> error + cell" where
  \<comment> \<open>the text \<^verbatim>\<open>`${(v * 100).toFixed(2)}%`\<close>\<close>
  "percent v = rbind (js_mul v (Num (Fin 100))) (\<lambda>n. Inr (Text (toFixed 2 n @ ''%'')))"

definition present_percent :: "jsval \<Rightarrow> string \<Rightarrow> string \<Rightarrow> error + cell" where
  \<comment> \<open>Performance Metrics: the field is tested against null and undefined\<close>
  "present_percent d a b =
     (if opath d a b \<noteq> Null \<and> opath d a b \<noteq> Undefined
      then rbind (path d a b) percent
      else Inr NA)"

definition truthy_percent :: "jsval \<Rightarrow> string \<Rightarrow> string \<Rightarrow> error + cell" where
  \<comment> \<open>Accuracy Breakdown: the field is tested by truthiness\<close>
  "truthy_percent d a b =
     (if truthy (opath d a b) then rbind (path d a b) percent else Inr NA)"

definition accuracy_cell :: "jsval \<Rightarrow> error + cell" where
  "accuracy_cell metrics =
     rbind (doc metrics ''test'') (\<lambda>test. present_percent test ''accuracy'' ''accuracy'')"

definition accuracy_change_cell :: "jsval \<Rightarrow> error + cell" where
  "accuracy_change_cell metrics =
     rbind (get metrics ''accuracySimilarity'') (\<lambda>a.
       if a \<noteq> Null \<and> a \<noteq> Undefined
       then rbind (call_toFixed a 2) (\<lambda>s. Inr (Text s))
       else Inr NA)"

definition confidence_cell :: "jsval \<Rightarrow> error + cell" where
  "confidence_cell metrics =
     rbind (doc metrics ''test'') (\<lambda>test. present_percent test ''confidence'' ''average_confidence'')"

definition files_processed_cell :: "jsval \<Rightarrow> error + cell" where
  "files_processed_cell metrics = rbind (get metrics ''filesCount'') (\<lambda>v. Inr (or_NA v))"

definition test_set_cell :: "jsval \<Rightarrow> error + cell" where
  "test_set_cell testRun = rbind (get testRun ''testSetName'') (\<lambda>v. Inr (or_NA v))"

definition precision_cell :: "jsval \<Rightarrow> error + cell" where
  "precision_cell testRun =
     rbind (doc testRun ''test'') (\<lambda>test. truthy_percent test ''accuracy'' ''precision'')"

definition recall_cell :: "jsval \<Rightarrow> error + cell" where
  "recall_cell testRun =
     rbind (doc testRun ''test'') (\<lambda>test. truthy_percent test ''accuracy'' ''recall'')"

definition f1_score_cell :: "jsval \<Rightarrow> error + cell" where
  "f1_score_cell testRun =
     rbind (doc testRun ''test'') (\<lambda>test. truthy_percent test ''accuracy'' ''f1_score'')"

definition dollars :: "jsval \<Rightarrow> error + cell" where
  \<comment> \<open>a document's \<^verbatim>\<open>d?.cost?.total_cost ? `$${d.cost.total_cost.toFixed(4)}` : 'N/A'\<close>\<close>
  "dollars d =
     (if truthy (opath d ''cost'' ''total_cost'')
      then rbind (path d ''cost'' ''total_cost'') (\<lambda>c.
             rbind (call_toFixed c 4) (\<lambda>s. Inr (Text (''$'' @ s))))
      else Inr NA)"

definition test_cost_cell :: "jsval \<Rightarrow> error + cell" where
  "test_cost_cell testRun = rbind (doc testRun ''test'') dollars"

definition baseline_cost_cell :: "jsval \<Rightarrow> error + cell" where
  "baseline_cost_cell testRun = rbind (doc testRun ''baseline'') dollars"

definition relative_change :: "jsval \<Rightarrow> jsval \<Rightarrow> error + jsnum" where
  \<comment> \<open>the quotient \<^verbatim>\<open>(t - b) / b\<close>\<close>
  "relative_change t b =
     rbind (js_sub t b) (\<lambda>d. rbind (to_number b) (\<lambda>y. Inr (num_div d y)))"

definition cost_change :: "jsval \<Rightarrow> jsval \<Rightarrow> error + cell" where
  \<comment> \<open>the Cost Change expression on the two parsed documents; the source writes the
      quotient twice, once for the digits and once for the arrow\<close>
  "cost_change test baseline =
     (if truthy (opath test ''cost'' ''total_cost'') \<and> truthy (opath baseline ''cost'' ''total_cost'')
      then rbind (path test ''cost'' ''total_cost'') (\<lambda>t.
           rbind (path baseline ''cost'' ''total_cost'') (\<lambda>b.
           rbind (relative_change t b) (\<lambda>r.
             Inr (Text (toFixed 2 (num_mul r (Fin 100)) @ ''%'' @
                        (if positive r then up_arrow else down_arrow))))))
      else Inr NA)"

definition cost_change_cell :: "jsval \<Rightarrow> error + cell" where
  "cost_change_cell testRun =
     rbind (doc testRun ''test'') (\<lambda>test.
     rbind (doc testRun ''baseline'') (\<lambda>baseline. cost_change test baseline))"

subsection \<open>Usage Breakdown: \<^verbatim>\<open>calculateChange\<close> and \<^verbatim>\<open>aggregateTokens\<close>\<close>

definition calculateChange :: "jsval \<Rightarrow> jsval \<Rightarrow> error + string" where
  "calculateChange testVal baselineVal =
     (if \<not> truthy baselineVal \<or> baselineVal = Num (Fin 0) then Inr ''N/A''
      else rbind (relative_change testVal baselineVal) (\<lambda>r.
        let change = toFixed 2 (num_mul r (Fin 100));
            isIncrease = positive (parseFloat change);
            arrow = (if parseFloat change \<noteq> Fin 0
                     then (if isIncrease then up_arrow else down_arrow) else [])
        in Inr (number_to_string (num_abs (string_to_number change)) @ ''%'' @ arrow)))"

record tokens =
  inputTokens :: jsval
  outputTokens :: jsval
  totalTokens :: jsval

definition no_tokens :: tokens where
  "no_tokens = \<lparr>inputTokens = Num (Fin 0), outputTokens = Num (Fin 0), totalTokens = Num (Fin 0)\<rparr>"

definition or_zero :: "jsval \<Rightarrow> jsval" where
  \<comment> \<open>the value \<^verbatim>\<open>v || 0\<close>\<close>
  "or_zero v = (if truthy v then v else Num (Fin 0))"

definition add_entry :: "jsval \<Rightarrow> tokens \<Rightarrow> string \<Rightarrow> error + tokens" where
  \<comment> \<open>the body of the \<^verbatim>\<open>forEach\<close>; \<^verbatim>\<open>usage\<close> is truthy here, so \<^verbatim>\<open>usage[key]\<close> is read\<close>
  "add_entry usage tk key =
     (if str_includes key ''bedrock'' \<and> truthy (read_prop usage key)
      then rbind (path usage key ''inputTokens'') (\<lambda>i.
           rbind (js_add (inputTokens tk) (or_zero i)) (\<lambda>ti.
           rbind (path usage key ''outputTokens'') (\<lambda>out.
           rbind (js_add (outputTokens tk) (or_zero out)) (\<lambda>to.
           rbind (path usage key ''totalTokens'') (\<lambda>t.
           rbind (js_add (totalTokens tk) (or_zero t)) (\<lambda>tt.
             Inr \<lparr>inputTokens = ti, outputTokens = to, totalTokens = tt\<rparr>))))))
      else Inr tk)"

fun fold_result :: "('s \<Rightarrow> 'a \<Rightarrow> error + 's) \<Rightarrow> 'a list \<Rightarrow> 's \<Rightarrow> error + 's" where
  "fold_result f [] s = Inr s"
| "fold_result f (x # xs) s = (case f s x of Inl e \<Rightarrow> Inl e | Inr s' \<Rightarrow> fold_result f xs s')"

definition aggregateTokens :: "jsval \<Rightarrow> error + tokens" where
  "aggregateTokens usage =
     (if truthy usage
      then fold_result (add_entry usage) (map fst (own_entries usage)) no_tokens
      else Inr no_tokens)"

definition side_tokens :: "jsval \<Rightarrow> string \<Rightarrow> error + tokens" where
  \<comment> \<open>one run side's aggregate: \<^verbatim>\<open>aggregateTokens(d?.usage)\<close> on the parsed document\<close>
  "side_tokens testRun side = rbind (doc testRun side) (\<lambda>d. aggregateTokens (oget d ''usage''))"

definition test_input_tokens_cell :: "jsval \<Rightarrow> error + cell" where
  "test_input_tokens_cell testRun =
     rbind (side_tokens testRun ''test'') (\<lambda>tk. Inr (Localized (inputTokens tk)))"

definition baseline_input_tokens_cell :: "jsval \<Rightarrow> error + cell" where
  "baseline_input_tokens_cell testRun =
     rbind (side_tokens testRun ''baseline'') (\<lambda>tk. Inr (Localized (inputTokens tk)))"

definition total_token_change_cell :: "jsval \<Rightarrow> error + cell" where
  "total_token_change_cell testRun =
     rbind (side_tokens testRun ''test'') (\<lambda>testTokens.
     rbind (side_tokens testRun ''baseline'') (\<lambda>baselineTokens.
     rbind (calculateChange (totalTokens testTokens) (totalTokens baselineTokens)) (\<lambda>s.
       Inr (Text s))))"

subsection \<open>The four tables\<close>

text \<open>
  Every row maps one cell expression over the entries of \<^verbatim>\<open>completeTestRuns\<close>; an
  exception in one cell aborts the whole render. A table's item is its metric label
  with the cells by run id (run ids are taken to differ from the property name
  \<^verbatim>\<open>metric\<close>).
\<close>

type_synonym item = "string \<times> (string \<times> cell) list"

definition row :: "string \<Rightarrow> (jsval \<Rightarrow> error + cell) \<Rightarrow> (string \<times> jsval) list \<Rightarrow> error + item" where
  "row metric f runs =
     rbind (map_result (\<lambda>(testRunId, testRun). rbind (f testRun) (\<lambda>c. Inr (testRunId, c))) runs)
       (\<lambda>cells. Inr (metric, cells))"

fun rows :: "(string \<times> (jsval \<Rightarrow> error + cell)) list \<Rightarrow> (string \<times> jsval) list \<Rightarrow> error + item list" where
  "rows [] runs = Inr []"
| "rows ((metric, f) # rs) runs =
     (case row metric f runs of Inl e \<Rightarrow> Inl e
      | Inr i \<Rightarrow> (case rows rs runs of Inl e \<Rightarrow> Inl e | Inr is \<Rightarrow> Inr (i # is)))"

datatype table_view = Table "item list" | Box string

definition table_or :: "string \<Rightarrow> (string \<times> (jsval \<Rightarrow> error + cell)) list \<Rightarrow>
    (string \<times> jsval) list \<Rightarrow> error + table_view" where
  \<comment> \<open>the guard \<^verbatim>\<open>Object.keys(completeTestRuns).length > 0\<close> around each table\<close>
  "table_or empty_text rs runs =
     (if 0 < length runs then rbind (rows rs runs) (\<lambda>is. Inr (Table is))
      else Inr (Box empty_text))"

definition performance_metrics :: "(string \<times> jsval) list \<Rightarrow> error + table_view" where
  "performance_metrics =
     table_or ''No completed test runs available''
       [(''Accuracy'', accuracy_cell),
        (''Accuracy Change'', accuracy_change_cell),
        (''Confidence'', confidence_cell),
        (''Files Processed'', files_processed_cell)]"

definition accuracy_breakdown :: "(string \<times> jsval) list \<Rightarrow> error + table_view" where
  "accuracy_breakdown =
     table_or ''No completed test runs available''
       [(''Test Set'', test_set_cell),
        (''Test Precision'', precision_cell),
        (''Test Recall'', recall_cell),
        (''Test F1 Score'', f1_score_cell)]"

definition cost_breakdown :: "(string \<times> jsval) list \<Rightarrow> error + table_view" where
  "cost_breakdown =
     table_or ''No cost data available''
       [(''Test Set'', test_set_cell),
        (''Test Cost'', test_cost_cell),
        (''Baseline Cost'', baseline_cost_cell),
        (''Cost Change'', cost_change_cell)]"

definition usage_breakdown :: "(string \<times> jsval) list \<Rightarrow> error + table_view" where
  "usage_breakdown =
     table_or ''No completed test runs available''
       [(''Test Input Tokens'', test_input_tokens_cell),
        (''Baseline Input Tokens'', baseline_input_tokens_cell),
        (''Total Token Change'', total_token_change_cell)]"

subsection \<open>Column renderers\<close>

text \<open>
  The tables draw three rows through a renderer of their own: Accuracy Change through
  \<^verbatim>\<open>renderChangeValue\<close>, Cost Change through \<^verbatim>\<open>costChangeCell\<close>, Total Token Change through
  \<^verbatim>\<open>usageChangeCell\<close>. Each reads the number back from the row's string and draws its
  magnitude with two decimals and an arrow in a colour. The claims speak of the row's
  string; the renderers are modelled on strings, which is what these rows hold.
\<close>

datatype rendered = Plain string | Arrowed string string string

definition is_digit :: "char \<Rightarrow> bool" where
  "is_digit c = (digit_value c \<noteq> None)"

definition leading_number :: "string \<Rightarrow> string option" where
  \<comment> \<open>the group captured by \<^verbatim>\<open>/^([-+]?\d+\.?\d*)%/\<close>, if the string matches\<close>
  "leading_number s =
     (let sign = (case s of [] \<Rightarrow> [] | c # r \<Rightarrow> if c = CHR ''-'' \<or> c = CHR ''+'' then [c] else []);
          r1 = drop (length sign) s;
          ds = takeWhile is_digit r1;
          r2 = dropWhile is_digit r1;
          dot = (case r2 of [] \<Rightarrow> [] | c # r \<Rightarrow> if c = CHR ''.'' then [c] else []);
          r3 = drop (length dot) r2;
          fs = takeWhile is_digit r3;
          r4 = dropWhile is_digit r3
      in if ds \<noteq> [] \<and> (case r4 of [] \<Rightarrow> False | c # r \<Rightarrow> c = CHR ''%'')
         then Some (sign @ ds @ dot @ fs) else None)"

definition renderChangeValue :: "string \<Rightarrow> rendered" where
  "renderChangeValue value =
     (if value = ''N/A'' then Plain ''N/A''
      else (let numValue = parseFloat value; isPositive = positive numValue
            in Arrowed (toFixed 2 (num_abs numValue) @ ''%'')
                 (if isPositive then ''green'' else ''red'')
                 (if isPositive then up_arrow else down_arrow)))"

definition costChangeCell :: "string \<Rightarrow> rendered" where
  \<comment> \<open>called with \<^verbatim>\<open>{ costChange: value }\<close>, so \<^verbatim>\<open>item.change || item.costChange\<close> is the
      value\<close>
  "costChangeCell changeValue =
     (if changeValue = [] \<or> changeValue = ''N/A'' then Plain ''N/A''
      else (case leading_number changeValue of
              None \<Rightarrow> Plain changeValue
            | Some m \<Rightarrow>
                (let v = parseFloat m; isPositive = positive v
                 in Arrowed (toFixed 2 (num_abs v) @ ''%'')
                      (if isPositive then ''red'' else ''green'')
                      (if isPositive then up_arrow else down_arrow))))"

definition usageChangeCell :: "string \<Rightarrow> rendered" where
  "usageChangeCell totalTokensChange =
     (if totalTokensChange = ''N/A'' then Plain ''N/A''
      else (case leading_number totalTokensChange of
              None \<Rightarrow> Plain totalTokensChange
            | Some m \<Rightarrow>
                (let v = parseFloat m; isPositive = positive v
                 in Arrowed (toFixed 2 (num_abs v) @ ''%'')
                      (if isPositive then ''red'' else ''green'')
                      (if isPositive then up_arrow else down_arrow))))"

subsection \<open>Configuration Differences\<close>

text \<open>
  The section shows one of four things. When it shows the table, the component hands
  the configuration rows and one column per supplied run id to the table component,
  which draws the cells; the view below holds the rows and the columns.
\<close>

datatype config_view =
    ConfigTable jsval "string list"
  | AllIdentical
  | NoConfigData
  | OnlyForTwo nat

definition greater_than_zero :: "jsval \<Rightarrow> error + bool" where
  \<comment> \<open>the test \<^verbatim>\<open>v > 0\<close>\<close>
  "greater_than_zero v = rbind (to_number v) (\<lambda>n. Inr (positive n))"

definition has_items :: "jsval \<Rightarrow> error + bool" where
  \<comment> \<open>the test \<^verbatim>\<open>configs && configs.length > 0\<close>\<close>
  "has_items configs =
     (if truthy configs then greater_than_zero (read_prop configs ''length'') else Inr False)"

definition configuration_differences :: "string list \<Rightarrow> jsval \<Rightarrow> error + config_view" where
  "configuration_differences preSelectedTestRunIds configs =
     (if length preSelectedTestRunIds = 2
      then rbind (has_items configs) (\<lambda>found.
             if found
             then (let differentConfigs = (if truthy configs then configs else Arr [])
                   in rbind (greater_than_zero (read_prop differentConfigs ''length'')) (\<lambda>some.
                        Inr (if some then ConfigTable differentConfigs preSelectedTestRunIds
                             else AllIdentical)))
             else Inr NoConfigData)
      else Inr (OnlyForTwo (length preSelectedTestRunIds)))"

subsection \<open>The rendered component\<close>

record comparison =
  configuration_view :: config_view
  incomplete_notice :: bool
  performance_table :: table_view
  accuracy_table :: table_view
  cost_table :: table_view
  usage_table :: table_view

datatype view = Loading | NoComparisonData | ErrorBox jsval | Compared comparison

definition compared :: "string list \<Rightarrow> jsval \<Rightarrow> error + comparison" where
  "compared preSelectedTestRunIds comparisonData =
     (let metrics = read_prop comparisonData ''metrics''
      in rbind (completeTestRuns metrics) (\<lambda>runs.
         rbind (hasIncompleteRuns metrics) (\<lambda>incomplete.
         rbind (configuration_differences preSelectedTestRunIds
                  (read_prop comparisonData ''configs'')) (\<lambda>d.
         rbind (performance_metrics runs) (\<lambda>p.
         rbind (accuracy_breakdown runs) (\<lambda>a.
         rbind (cost_breakdown runs) (\<lambda>c.
         rbind (usage_breakdown runs) (\<lambda>u.
           Inr \<lparr>configuration_view = d, incomplete_notice = incomplete,
                performance_table = p, accuracy_table = a, cost_table = c,
                usage_table = u\<rparr>))))))))"

definition TestComparison :: "bool \<Rightarrow> jsval \<Rightarrow> string list \<Rightarrow> error + view" where
  "TestComparison comparing comparisonData preSelectedTestRunIds =
     (if comparing then Inr Loading
      else if \<not> truthy comparisonData then Inr NoComparisonData
      else if truthy (read_prop comparisonData ''error'')
      then Inr (ErrorBox (read_prop comparisonData ''error''))
      else rbind (compared preSelectedTestRunIds comparisonData) (\<lambda>c. Inr (Compared c)))"

subsection \<open>Runs with well-typed metrics\<close>

text \<open>
  What the tables need of a run to compute every cell: its two documents at hand, and
  a number or nothing wherever a metric leaf is read.
\<close>

definition leaf_ok :: "jsval \<Rightarrow> bool" where
  \<comment> \<open>a metric leaf: a number, or absent\<close>
  "leaf_ok v = (case v of Num n \<Rightarrow> True | Undefined \<Rightarrow> True | Null \<Rightarrow> True | _ \<Rightarrow> False)"

definition usage_ok :: "jsval \<Rightarrow> bool" where
  \<comment> \<open>the token counts of the model-invocation entries are metric leaves\<close>
  "usage_ok u =
     (\<forall>(key, entry) \<in> set (own_entries u).
        str_includes key ''bedrock'' \<and> truthy entry \<longrightarrow>
          leaf_ok (read_prop entry ''inputTokens'') \<and> leaf_ok (read_prop entry ''outputTokens'')
          \<and> leaf_ok (read_prop entry ''totalTokens''))"

definition test_ok :: "jsval \<Rightarrow> bool" where
  "test_ok d =
     (leaf_ok (opath d ''accuracy'' ''accuracy'')
      \<and> leaf_ok (opath d ''confidence'' ''average_confidence'')
      \<and> leaf_ok (opath d ''accuracy'' ''precision'')
      \<and> leaf_ok (opath d ''accuracy'' ''recall'')
      \<and> leaf_ok (opath d ''accuracy'' ''f1_score'')
      \<and> leaf_ok (opath d ''cost'' ''total_cost'')
      \<and> usage_ok (oget d ''usage''))"

definition baseline_ok :: "jsval \<Rightarrow> bool" where
  "baseline_ok d = (leaf_ok (opath d ''cost'' ''total_cost'') \<and> usage_ok (oget d ''usage''))"

definition run_ok :: "jsval \<Rightarrow> bool" where
  \<comment> \<open>both documents are at hand (objects, or text that parses) and every metric leaf
      the tables read is a number or absent\<close>
  "run_ok testRun =
     (\<exists>test baseline.
        doc testRun ''test'' = Inr test \<and> doc testRun ''baseline'' = Inr baseline
        \<and> test_ok test \<and> baseline_ok baseline
        \<and> leaf_ok (read_prop testRun ''accuracySimilarity''))"

definition counted :: "tokens \<Rightarrow> bool" where
  "counted tk = (\<exists>a b c. tk = \<lparr>inputTokens = Num a, outputTokens = Num b, totalTokens = Num c\<rparr>)"

subsection \<open>The change in the claims' words\<close>

text \<open>
  The formula \<^verbatim>\<open>(test - baseline) / baseline * 100\<close> on two finite numbers, each
  operation rounded as the browser rounds it. It is compared below with what the Cost
  Change row computes from two documents.
\<close>

definition change_ratio :: "rat \<Rightarrow> rat \<Rightarrow> jsnum" where
  "change_ratio t b = num_div (num_sub (Fin t) (Fin b)) (Fin b)"

definition change_in_percent :: "rat \<Rightarrow> rat \<Rightarrow> jsnum" where
  "change_in_percent t b = num_mul (change_ratio t b) (Fin 100)"

subsection \<open>Token totals in the claim's words\<close>

text \<open>
  The totals as sums over the model-invocation entries, to be compared with the loop
  of \<^verbatim>\<open>aggregateTokens\<close>. A sum of numbers is formed as the browser forms it, from 0
  and one rounded addition after the other in the order of the entries; for whole
  counts whose exact sum is at most \<^verbatim>\<open>2^53\<close> it is the exact sum.
\<close>

definition token_field :: "jsval \<Rightarrow> string \<Rightarrow> rat" where
  \<comment> \<open>an entry's token count, 0 when the field is absent\<close>
  "token_field entry k = (case read_prop entry k of Num (Fin x) \<Rightarrow> x | _ \<Rightarrow> 0)"

definition counts_of :: "(string \<times> jsval) list \<Rightarrow> string \<Rightarrow> rat list" where
  \<comment> \<open>the counts of one field in the entries whose key names a model-invocation source,
      which the code recognises by the substring \<^verbatim>\<open>bedrock\<close>\<close>
  "counts_of entries k =
     map (\<lambda>(key, entry). token_field entry k)
       (filter (\<lambda>(key, entry). str_includes key ''bedrock'') entries)"

definition number_sum :: "rat list \<Rightarrow> jsnum" where
  "number_sum xs = foldl num_add (Fin 0) (map Fin xs)"

definition field_total :: "(string \<times> jsval) list \<Rightarrow> string \<Rightarrow> jsval" where
  "field_total entries k = Num (number_sum (counts_of entries k))"

definition model_invocation_totals :: "(string \<times> jsval) list \<Rightarrow> tokens" where
  "model_invocation_totals entries =
     \<lparr>inputTokens = field_total entries ''inputTokens'',
      outputTokens = field_total entries ''outputTokens'',
      totalTokens = field_total entries ''totalTokens''\<rparr>"

definition count_ok :: "jsval \<Rightarrow> bool" where
  \<comment> \<open>a token count: a finite number, or absent\<close>
  "count_ok w = (case w of Num (Fin x) \<Rightarrow> True | Undefined \<Rightarrow> True | Null \<Rightarrow> True | _ \<Rightarrow> False)"

definition counts_ok :: "jsval \<Rightarrow> bool" where
  "counts_ok entry =
     (count_ok (read_prop entry ''inputTokens'') \<and> count_ok (read_prop entry ''outputTokens'')
      \<and> count_ok (read_prop entry ''totalTokens''))"

definition whole :: "rat \<Rightarrow> bool" where
  "whole x = (0 \<le> x \<and> of_int \<lfloor>x\<rfloor> = x)"

definition whole_counts :: "(string \<times> jsval) list \<Rightarrow> string \<Rightarrow> bool" where
  \<comment> \<open>the counts of one field are whole numbers and their exact sum is at most \<^verbatim>\<open>2^53\<close>\<close>
  "whole_counts entries k =
     ((\<forall>x \<in> set (counts_of entries k). whole x) \<and> sum_list (counts_of entries k) \<le> 2 ^ 53)"

section \<open>Test run orchestration\<close>

text \<open>
  The Run Record Store, the Concurrency Guard, the Submission Service and the Execution
  Worker run in Lambda functions (\<^verbatim>\<open>src/lambda/test_runner\<close>,
  \<^verbatim>\<open>src/lambda/test_file_copier\<close>) whose code is not among the sources verified here; the
  repository's guide describes them only. The definitions of this section are
  therefore modelled from the specification, sections 3 to 5 and 8, and each says so.
\<close>

datatype status = QUEUED | PROCESSING | RUNNING | COMPLETED | FAILED

definition terminal :: "status \<Rightarrow> bool" where
  \<comment> \<open>Modelled from the spec: the status constants of the absent Lambda code;
      COMPLETED and FAILED are terminal, the other three are active\<close>
  "terminal s = (s = COMPLETED \<or> s = FAILED)"

fun rank :: "status \<Rightarrow> nat" where
  \<comment> \<open>Modelled from the spec: the order QUEUED < PROCESSING < RUNNING < {COMPLETED, FAILED}
      of the absent state machine\<close>
  "rank QUEUED = 0"
| "rank PROCESSING = 1"
| "rank RUNNING = 2"
| "rank COMPLETED = 3"
| "rank FAILED = 3"

record test_run =
  testRunId :: string
  testSetName :: string
  run_status :: status
  filesCount :: nat
  completedFiles :: nat
  failedFiles :: nat
  baseline_doc :: jsval
  test_doc :: jsval
  errorMessage :: "string option"
  createdAt :: nat
  completedAt :: "nat option"
  updatedAt :: nat

record queue_message =
  msg_testRunId :: string
  msg_filePattern :: string
  msg_inputBucket :: string
  msg_baselineBucket :: string
  msg_trackingTable :: string

record test_set =
  set_id :: string
  set_name :: string
  set_filePattern :: string
  set_description :: string

datatype store_error = NotFound | Conflict

type_synonym run_store = "test_run list"

definition get_run :: "run_store \<Rightarrow> string \<Rightarrow> test_run option" where
  \<comment> \<open>Modelled from the spec: the absent store's \<^verbatim>\<open>get(id) -> TestRun | NotFound\<close>\<close>
  "get_run st rid = find (\<lambda>r. testRunId r = rid) st"

definition listActive :: "run_store \<Rightarrow> test_run list" where
  \<comment> \<open>Modelled from the spec: the absent store's \<^verbatim>\<open>listActive()\<close>, which excludes the
      terminal states\<close>
  "listActive st = filter (\<lambda>r. \<not> terminal (run_status r)) st"

definition canAdmit :: "run_store \<Rightarrow> bool" where
  \<comment> \<open>Modelled from the spec: the absent Concurrency Guard; admission is denied if
      \<^verbatim>\<open>listActive()\<close> is non-empty\<close>
  "canAdmit st = (listActive st = [])"

definition create :: "run_store \<Rightarrow> test_run \<Rightarrow> store_error + run_store" where
  \<comment> \<open>Modelled from the spec: the absent store's \<^verbatim>\<open>create(run)\<close>, which itself fails if
      another active run is detected inside the same conditional write; a
      \<^verbatim>\<open>testRunId\<close> is never reused\<close>
  "create st r =
     (if listActive st \<noteq> [] \<or> get_run st (testRunId r) \<noteq> None then Inl Conflict
      else Inr (st @ [r]))"

record update_fields =
  set_errorMessage :: "string option"
  set_baseline :: "jsval option"
  set_test :: "jsval option"
  set_completedAt :: "nat option"

definition no_fields :: update_fields where
  "no_fields = \<lparr>set_errorMessage = None, set_baseline = None, set_test = None, set_completedAt = None\<rparr>"

definition write_fields :: "update_fields \<Rightarrow> test_run \<Rightarrow> test_run" where
  \<comment> \<open>Modelled from the spec: the \<open>fields\<close> argument of the absent store's update, written
      over the record; a field that is not given keeps its value\<close>
  "write_fields f r =
     r\<lparr>errorMessage := (case set_errorMessage f of None \<Rightarrow> errorMessage r | Some e \<Rightarrow> Some e),
       baseline_doc := (case set_baseline f of None \<Rightarrow> baseline_doc r | Some d \<Rightarrow> d),
       test_doc := (case set_test f of None \<Rightarrow> test_doc r | Some d \<Rightarrow> d),
       completedAt := (case set_completedAt f of None \<Rightarrow> completedAt r | Some t \<Rightarrow> Some t)\<rparr>"

definition updateStatus ::
    "run_store \<Rightarrow> string \<Rightarrow> status \<Rightarrow> status \<Rightarrow> update_fields \<Rightarrow> nat \<Rightarrow> store_error + run_store" where
  \<comment> \<open>Modelled from the spec: the absent store's \<^verbatim>\<open>updateStatus(id, newStatus, fields)\<close>, a
      compare-and-swap keyed on the expected prior status: the write fails if the
      stored status is already terminal when attempting a non-terminal overwrite, or if
      the record is no longer in the expected prior state; a successful update stamps
      \<^verbatim>\<open>updatedAt\<close>\<close>
  "updateStatus st rid expected newStatus fs now =
     (case get_run st rid of
        None \<Rightarrow> Inl NotFound
      | Some r \<Rightarrow>
          if terminal (run_status r) \<and> \<not> terminal newStatus then Inl Conflict
          else if run_status r \<noteq> expected then Inl Conflict
          else Inr (map (\<lambda>x. if testRunId x = rid
                              then (write_fields fs x)\<lparr>run_status := newStatus, updatedAt := now\<rparr>
                              else x) st))"

record system =
  store :: run_store
  queue :: "queue_message list"
  test_sets :: "test_set list"
  clock :: nat
  inputBucket :: string
  baselineBucket :: string
  trackingTable :: string

definition new_run_id :: "string \<Rightarrow> nat \<Rightarrow> string" where
  \<comment> \<open>Modelled from the spec: the absent id scheme, test-set name plus timestamp\<close>
  "new_run_id name now = name @ ''-'' @ show_nat now"

definition submit :: "system \<Rightarrow> string \<Rightarrow> (string \<Rightarrow> nat) \<Rightarrow> store_error + string \<times> system" where
  \<comment> \<open>Modelled from the spec: the absent Submission Service, steps 1 to 6 of section 4.3;
      \<open>matching\<close> is the external collaborator that counts the files of a pattern\<close>
  "submit s testSetId matching =
     (case find (\<lambda>t. set_id t = testSetId) (test_sets s) of
        None \<Rightarrow> Inl NotFound
      | Some t \<Rightarrow>
          if \<not> canAdmit (store s) then Inl Conflict
          else
            (let rid = new_run_id (set_name t) (clock s);
                 r = \<lparr>testRunId = rid, testSetName = set_name t, run_status = QUEUED,
                      filesCount = matching (set_filePattern t), completedFiles = 0,
                      failedFiles = 0, baseline_doc = Undefined, test_doc = Undefined,
                      errorMessage = None, createdAt = clock s, completedAt = None,
                      updatedAt = clock s\<rparr>;
                 m = \<lparr>msg_testRunId = rid, msg_filePattern = set_filePattern t,
                      msg_inputBucket = inputBucket s, msg_baselineBucket = baselineBucket s,
                      msg_trackingTable = trackingTable s\<rparr>
             in case create (store s) r of
                  Inl e \<Rightarrow> Inl e
                | Inr st \<Rightarrow> Inr (rid, s\<lparr>store := st, queue := queue s @ [m], clock := Suc (clock s)\<rparr>)))"

datatype replication = Copied | CopyFailed string

definition or_unchanged :: "run_store \<Rightarrow> store_error + run_store \<Rightarrow> run_store" where
  \<comment> \<open>Modelled from the spec: a refused write of the absent store leaves it as it was\<close>
  "or_unchanged st res = (case res of Inl e \<Rightarrow> st | Inr st' \<Rightarrow> st')"

definition pick_up :: "run_store \<Rightarrow> queue_message \<Rightarrow> nat \<Rightarrow> run_store" where
  \<comment> \<open>Modelled from the spec: the absent Execution Worker, steps 1 and 2 of section 4.4:
      re-fetch the run; if it is already terminal, discard the message; otherwise
      QUEUED to PROCESSING\<close>
  "pick_up st m now =
     (case get_run st (msg_testRunId m) of
        None \<Rightarrow> st
      | Some r \<Rightarrow>
          if terminal (run_status r) then st
          else or_unchanged st (updateStatus st (msg_testRunId m) QUEUED PROCESSING no_fields now))"

definition replicate_files :: "run_store \<Rightarrow> queue_message \<Rightarrow> replication \<Rightarrow> nat \<Rightarrow> run_store" where
  \<comment> \<open>Modelled from the spec: the absent Execution Worker, steps 3 and 4: on failure of
      the File Replication collaborator PROCESSING to FAILED with its error, on success
      PROCESSING to RUNNING\<close>
  "replicate_files st m outcome now =
     (case outcome of
        CopyFailed err \<Rightarrow>
          or_unchanged st (updateStatus st (msg_testRunId m) PROCESSING FAILED
                             (no_fields\<lparr>set_errorMessage := Some err\<rparr>) now)
      | Copied \<Rightarrow>
          or_unchanged st (updateStatus st (msg_testRunId m) PROCESSING RUNNING no_fields now))"

definition process_message :: "run_store \<Rightarrow> queue_message \<Rightarrow> replication \<Rightarrow> nat \<Rightarrow> run_store" where
  \<comment> \<open>Modelled from the spec: the absent Execution Worker consuming one QueueMessage,
      steps 1 to 4 in sequence; the file work starts only if this delivery itself moved
      the run to PROCESSING\<close>
  "process_message st m outcome now =
     (case get_run st (msg_testRunId m) of
        None \<Rightarrow> st
      | Some r \<Rightarrow>
          if terminal (run_status r) then st
          else (case updateStatus st (msg_testRunId m) QUEUED PROCESSING no_fields now of
                  Inl e \<Rightarrow> st
                | Inr st' \<Rightarrow> replicate_files st' m outcome now))"

definition finalize :: "run_store \<Rightarrow> string \<Rightarrow> status \<Rightarrow> jsval \<Rightarrow> jsval \<Rightarrow> string option \<Rightarrow> nat \<Rightarrow>
    store_error + run_store" where
  \<comment> \<open>Modelled from the spec: the absent \<^verbatim>\<open>finalize(testRunId, status, metrics)\<close>, the only
      path from RUNNING to COMPLETED or FAILED; it writes the two metric documents and
      \<^verbatim>\<open>completedAt\<close>\<close>
  "finalize st rid outcome baseline test err now =
     (if \<not> terminal outcome then Inl Conflict
      else updateStatus st rid RUNNING outcome
             \<lparr>set_errorMessage = (if outcome = FAILED then err else None),
              set_baseline = Some baseline, set_test = Some test,
              set_completedAt = Some now\<rparr> now)"

definition mark_failed :: "run_store \<Rightarrow> string \<Rightarrow> status \<Rightarrow> string \<Rightarrow> nat \<Rightarrow> store_error + run_store" where
  \<comment> \<open>Modelled from the spec: the error escape hatch, any non-terminal state to FAILED
      carrying \<^verbatim>\<open>errorMessage\<close>\<close>
  "mark_failed st rid expected err now =
     (if terminal expected then Inl Conflict
      else updateStatus st rid expected FAILED
             (no_fields\<lparr>set_errorMessage := Some err, set_completedAt := Some now\<rparr>) now)"

definition complete_trivially :: "run_store \<Rightarrow> string \<Rightarrow> nat \<Rightarrow> store_error + run_store" where
  \<comment> \<open>Modelled from the spec: the boundary case of section 8, absent like the rest: a run
      with \<^verbatim>\<open>filesCount = 0\<close> (an empty pattern match, which section 4.3 says completes
      trivially) transitions straight to COMPLETED, with zero completed and failed files
      and no error\<close>
  "complete_trivially st rid now =
     (case get_run st rid of
        None \<Rightarrow> Inl NotFound
      | Some r \<Rightarrow>
          if filesCount r \<noteq> 0 then Inl Conflict
          else updateStatus st rid QUEUED COMPLETED
                 (no_fields\<lparr>set_completedAt := Some now\<rparr>) now)"

text \<open>
  One atomic step of the whole system: each step is at most one write to the store.
  Submission, the worker's two writes, the completion of a run without files, finalize
  and the failure path may interleave in any order, and a message may be delivered any
  number of times (it stays in the queue until it is acknowledged).
\<close>

inductive step :: "system \<Rightarrow> system \<Rightarrow> bool" where
  submitted: "submit s testSetId matching = Inr (rid, s') \<Longrightarrow> step s s'"
| completed_trivially: "complete_trivially (store s) rid (clock s) = Inr st \<Longrightarrow>
    step s (s\<lparr>store := st, clock := Suc (clock s)\<rparr>)"
| picked_up: "m \<in> set (queue s) \<Longrightarrow>
    step s (s\<lparr>store := pick_up (store s) m (clock s), clock := Suc (clock s)\<rparr>)"
| replicated: "m \<in> set (queue s) \<Longrightarrow>
    step s (s\<lparr>store := replicate_files (store s) m outcome (clock s), clock := Suc (clock s)\<rparr>)"
| acknowledged: "step s (s\<lparr>queue := remove1 m (queue s)\<rparr>)"
| finalized: "finalize (store s) rid outcome baseline test err (clock s) = Inr st \<Longrightarrow>
    step s (s\<lparr>store := st, clock := Suc (clock s)\<rparr>)"
| failed: "mark_failed (store s) rid expected err (clock s) = Inr st \<Longrightarrow>
    step s (s\<lparr>store := st, clock := Suc (clock s)\<rparr>)"

definition single_flight :: "run_store \<Rightarrow> bool" where
  "single_flight st = (length (listActive st) \<le> 1)"

definition status_of :: "run_store \<Rightarrow> string \<Rightarrow> status option" where
  "status_of st rid = map_option run_status (get_run st rid)"

definition allowed :: "status \<Rightarrow> status \<Rightarrow> bool" where
  \<comment> \<open>one move of a run's status as claim C4 has it: none, one place forward, or from
      an active state to FAILED\<close>
  "allowed a b = (b = a \<or> rank b = Suc (rank a) \<or> (\<not> terminal a \<and> b = FAILED))"

definition without_files :: "run_store \<Rightarrow> string \<Rightarrow> bool" where
  "without_files st rid = (case get_run st rid of None \<Rightarrow> False | Some r \<Rightarrow> filesCount r = 0)"

definition initial :: "system \<Rightarrow> bool" where
  "initial s = (store s = [] \<and> queue s = [])"

definition unique_ids :: "run_store \<Rightarrow> bool" where
  \<comment> \<open>the store is keyed by \<^verbatim>\<open>testRunId\<close>\<close>
  "unique_ids st = distinct (map testRunId st)"

definition store_ok :: "run_store \<Rightarrow> bool" where
  "store_ok st = (unique_ids st \<and> single_flight st)"

fun redeliver :: "run_store \<Rightarrow> queue_message \<Rightarrow> (replication \<times> nat) list \<Rightarrow> run_store" where
  \<comment> \<open>Modelled from the spec: the same QueueMessage delivered again and again to the absent
      Execution Worker, each delivery with its own replication outcome and time\<close>
  "redeliver st m [] = st"
| "redeliver st m ((outcome, now) # ds) = redeliver (process_message st m outcome now) m ds"

section \<open>Concrete documents and runs\<close>

definition cost_doc :: "jsval \<Rightarrow> jsval" where
  \<comment> \<open>a metric document that holds a total cost only\<close>
  "cost_doc v = Obj [(''cost'', Obj [(''total_cost'', v)])]"

definition run_of :: "string \<Rightarrow> jsval \<Rightarrow> jsval \<Rightarrow> jsval" where
  \<comment> \<open>a run record with its status and its two metric documents\<close>
  "run_of st test baseline = Obj [(''status'', Str st), (''test'', test), (''baseline'', baseline)]"

definition zero_run :: jsval where
  \<comment> \<open>a complete run all of whose metrics are the number 0\<close>
  "zero_run = run_of ''COMPLETE''
     (Obj [(''accuracy'', Obj [(''accuracy'', Num (Fin 0)), (''precision'', Num (Fin 0)),
                               (''recall'', Num (Fin 0)), (''f1_score'', Num (Fin 0))]),
           (''cost'', Obj [(''total_cost'', Num (Fin 0))])])
     (cost_doc (Num (Fin 0)))"

definition empty_run :: jsval where
  \<comment> \<open>a complete run whose two documents hold nothing\<close>
  "empty_run = run_of ''COMPLETE'' (Obj []) (Obj [])"

definition model_row :: jsval where
  \<comment> \<open>one row of configuration differences between two runs\<close>
  "model_row = Obj [(''setting'', Str ''model''),
                    (''values'', Obj [(''run-1'', Str ''a''), (''run-2'', Str ''b'')])]"

definition demo_usage :: jsval where
  "demo_usage = Obj
     [(''bedrock/nova-pro'', Obj [(''inputTokens'', Num (Fin 100)), (''outputTokens'', Num (Fin 20)),
                                  (''totalTokens'', Num (Fin 120))]),
      (''textract/analyze_document'', Obj [(''pages'', Num (Fin 3)), (''totalTokens'', Num (Fin 999))]),
      (''bedrock/claude'', Obj [(''inputTokens'', Num (Fin 50)), (''totalTokens'', Num (Fin 50))])]"

definition full_run :: jsval where
  "full_run = Obj
     [(''status'', Str ''COMPLETE''), (''testSetName'', Str ''invoices''), (''filesCount'', Num (Fin 3)),
      (''accuracySimilarity'', Num (Fin (1 / 2))),
      (''test'', Obj [(''accuracy'', Obj [(''accuracy'', Num (Fin (7 / 8))), (''precision'', Num (Fin (3 / 4))),
                                          (''recall'', Num (Fin (1 / 2))), (''f1_score'', Num (Fin (5 / 8)))]),
                     (''confidence'', Obj [(''average_confidence'', Num (Fin (13 / 16)))]),
                     (''cost'', Obj [(''total_cost'', Num (Fin 10))]),
                     (''usage'', demo_usage)]),
      (''baseline'', Obj [(''cost'', Obj [(''total_cost'', Num (Fin 8))]),
                         (''usage'', Obj [(''bedrock/nova-pro'', Obj [(''totalTokens'', Num (Fin 100))])])])]"

definition text_cost_run :: jsval where
  "text_cost_run = run_of ''COMPLETE'' (cost_doc (Str ''1.5'')) (cost_doc (Num (Fin 1)))"

text \<open>Scenario A: the test set \<^verbatim>\<open>invoices\<close> with three matching files.\<close>

definition three_files :: "string \<Rightarrow> nat" where
  "three_files pattern = 3"

definition demo_system :: system where
  "demo_system =
     \<lparr>store = [], queue = [],
      test_sets = [\<lparr>set_id = ''ts-1'', set_name = ''invoices'', set_filePattern = ''invoices/*'',
                    set_description = ''monthly invoices''\<rparr>],
      clock = 0, inputBucket = ''input'', baselineBucket = ''baseline'',
      trackingTable = ''tracking''\<rparr>"

definition demo_message :: queue_message where
  "demo_message =
     \<lparr>msg_testRunId = ''invoices-0'', msg_filePattern = ''invoices/*'',
      msg_inputBucket = ''input'', msg_baselineBucket = ''baseline'',
      msg_trackingTable = ''tracking''\<rparr>"

definition demo_run :: "status \<Rightarrow> nat \<Rightarrow> test_run" where
  "demo_run s t =
     \<lparr>testRunId = ''invoices-0'', testSetName = ''invoices'', run_status = s, filesCount = 3,
      completedFiles = 0, failedFiles = 0, baseline_doc = Undefined, test_doc = Undefined,
      errorMessage = None, createdAt = 0, completedAt = None, updatedAt = t\<rparr>"

definition demo_at :: "test_run \<Rightarrow> nat \<Rightarrow> system" where
  "demo_at r t = demo_system\<lparr>store := [r], queue := [demo_message], clock := t\<rparr>"

definition demo_done :: "nat \<Rightarrow> test_run" where
  "demo_done t = (demo_run COMPLETED t)
     \<lparr>baseline_doc := cost_doc (Num (Fin 8)), test_doc := cost_doc (Num (Fin 10)),
      completedAt := Some t\<rparr>"

text \<open>A second submission of the same test set, once the first run is complete.\<close>

definition second_run :: test_run where
  "second_run = (demo_run QUEUED 4)\<lparr>testRunId := ''invoices-4'', createdAt := 4\<rparr>"

definition demo_again :: system where
  "demo_again =
     demo_system\<lparr>store := [demo_done 3, second_run],
                 queue := [demo_message, demo_message\<lparr>msg_testRunId := ''invoices-4''\<rparr>],
                 clock := 5\<rparr>"

text \<open>The boundary case: the pattern of the test set matches no file.\<close>

definition no_files :: "string \<Rightarrow> nat" where
  "no_files pattern = 0"

definition bare_run :: "status \<Rightarrow> nat \<Rightarrow> test_run" where
  "bare_run s t = (demo_run s t)\<lparr>filesCount := 0\<rparr>"

definition bare_done :: "nat \<Rightarrow> test_run" where
  "bare_done t = (bare_run COMPLETED t)\<lparr>completedAt := Some t\<rparr>"

section \<open>Evaluation and reading lemmas\<close>

lemma show_nat_digit: "n < 10 \<Longrightarrow> show_nat n = [''0123456789'' ! n]"
  by (simp add: show_nat.simps)

lemma show_nat_more:
  "\<not> n < 10 \<Longrightarrow> show_nat n = show_nat (n div 10) @ [''0123456789'' ! (n mod 10)]"
  by (subst show_nat.simps) simp

lemma floor_rat_numeral: "\<lfloor>numeral a / numeral b :: rat\<rfloor> = numeral a div numeral b"
  using floor_divide_of_int_eq [of "numeral a" "numeral b", where ?'a = rat] by simp

lemma ceiling_rat_numeral:
  "\<lceil>numeral a / numeral b :: rat\<rceil> = - ((- numeral a) div numeral b)"
  using ceiling_divide_eq_div [of "numeral a" "numeral b", where ?'a = rat] by simp

lemma floor_log2_small: "n < 2 \<Longrightarrow> floor_log2 n = 0"
  by (simp add: floor_log2.simps)

lemma floor_log2_more: "\<not> n < 2 \<Longrightarrow> floor_log2 n = Suc (floor_log2 (n div 2))"
  by (subst floor_log2.simps) simp

lemma floor_rat_one: "\<lfloor>1 / numeral b :: rat\<rfloor> = 1 div numeral b"
  using floor_divide_of_int_eq [of 1 "numeral b", where ?'a = rat] by simp

lemma ceiling_rat_one: "\<lceil>1 / numeral b :: rat\<rceil> = - ((- 1) div numeral b)"
  using ceiling_divide_eq_div [of 1 "numeral b", where ?'a = rat] by simp

lemmas double_eval = to_double_def round_positive_def quantum_def binade_def nearest_even_def
  Let_def
  floor_log2_small floor_log2_more floor_rat_numeral ceiling_rat_numeral floor_rat_one
  ceiling_rat_one

lemmas digits_eval = fixed_digits_def show_nat_digit show_nat_more floor_rat_numeral
  floor_rat_one Let_def

lemmas js_eval = rbind_def get_def oget_def read_prop_def opath_def path_def doc_def parsed_def
  to_number_def js_sub_def js_mul_def num_sub_def relative_change_def
  call_toFixed_def digits_eval double_eval
  up_arrow_def down_arrow_def or_NA_def

lemmas cell_eval = cost_change_def cost_change_cell_def dollars_def percent_def
  present_percent_def truthy_percent_def status_is_COMPLETE_def completeTestRuns_def
  hasIncompleteRuns_def cost_doc_def run_of_def

section \<open>Rounding to a double\<close>

text \<open>
  What the proofs below need of the rounding: the binade of a positive rational
  encloses it; rounding keeps the sign, does not take a number above \<^verbatim>\<open>2^(-1075)\<close>
  to zero and at most halves one from \<^verbatim>\<open>2^(-1074)\<close> on; two doubles differ by at least
  the quantum of the smaller; the whole numbers up to \<^verbatim>\<open>2^53\<close> are doubles; and a
  number that has been rounded is a double, so that adding 0 to it changes nothing.
\<close>

lemma floor_log2_bounds: "0 < n \<Longrightarrow> 2 ^ floor_log2 n \<le> n \<and> n < 2 ^ Suc (floor_log2 n)"
proof (induction n rule: floor_log2.induct)
  case (1 n)
  show ?case
  proof (cases "n < 2")
    case True
    with 1(2) have "n = 1" by simp
    then show ?thesis by (simp add: floor_log2_small)
  next
    case False
    then have "0 < n div 2" by simp
    with 1(1) False have ih: "2 ^ floor_log2 (n div 2) \<le> n div 2"
      "n div 2 < 2 ^ Suc (floor_log2 (n div 2))" by simp_all
    from ih(1) have "2 * 2 ^ floor_log2 (n div 2) \<le> n" by linarith
    moreover from ih(2) have "n < 2 * 2 ^ Suc (floor_log2 (n div 2))" by linarith
    ultimately show ?thesis by (simp add: floor_log2_more [OF False])
  qed
qed

lemma pow2_nat_le: "2 ^ k \<le> (n::nat) \<Longrightarrow> (2::rat) ^ k \<le> of_nat n"
proof -
  assume "2 ^ k \<le> n"
  then have "(of_nat (2 ^ k) :: rat) \<le> of_nat n" by (simp only: of_nat_le_iff)
  then show ?thesis by simp
qed

lemma nat_le_pow2: "(n::nat) \<le> 2 ^ k \<Longrightarrow> of_nat n \<le> (2::rat) ^ k"
proof -
  assume "n \<le> 2 ^ k"
  then have "(of_nat n :: rat) \<le> of_nat (2 ^ k)" by (simp only: of_nat_le_iff)
  then show ?thesis by simp
qed

lemma binade_bounds_large:
  assumes "1 \<le> a"
  shows "2 powi binade a \<le> a \<and> a < 2 powi (binade a + 1)"
proof -
  define n where "n = nat \<lfloor>a\<rfloor>"
  from assms have f: "1 \<le> \<lfloor>a\<rfloor>" by linarith
  then have n0: "0 < n" unfolding n_def by simp
  have nf: "(of_nat n :: rat) = of_int \<lfloor>a\<rfloor>" unfolding n_def using f by simp
  have n1: "of_nat n \<le> a" unfolding nf by linarith
  have n2: "a < of_nat n + 1" unfolding nf by linarith
  from floor_log2_bounds [OF n0]
  have b: "2 ^ floor_log2 n \<le> n" "n + 1 \<le> 2 ^ Suc (floor_log2 n)" by simp_all
  have lo: "(2::rat) ^ floor_log2 n \<le> a"
    using pow2_nat_le [OF b(1)] n1 by linarith
  have "of_nat (n + 1) \<le> (2::rat) ^ Suc (floor_log2 n)"
    using b(2) by (rule nat_le_pow2)
  then have hi: "a < (2::rat) ^ Suc (floor_log2 n)"
    using n2 by simp
  have bn: "binade a = int (floor_log2 n)"
    using assms by (simp add: binade_def n_def)
  have s: "int (floor_log2 n) + 1 = int (Suc (floor_log2 n))" by simp
  show ?thesis
    unfolding bn s power_int_of_nat using lo hi by simp
qed

lemma binade_bounds_small:
  assumes "0 < a" and "a < 1"
  shows "2 powi binade a \<le> a \<and> a < 2 powi (binade a + 1)"
proof -
  from assms have i: "1 < 1 / a" by simp
  define n where "n = nat \<lceil>1 / a\<rceil>"
  have c: "2 \<le> \<lceil>1 / a\<rceil>" using i by linarith
  then have n: "1 < n" unfolding n_def by simp
  have nf: "(of_nat n :: rat) = of_int \<lceil>1 / a\<rceil>" unfolding n_def using c by simp
  have u: "1 / a \<le> of_nat n" unfolding nf by linarith
  have "(of_nat (n - 1) :: rat) = of_nat n - 1" using n by (simp add: of_nat_diff)
  then have l: "of_nat (n - 1) < 1 / a" unfolding nf by linarith
  define j where "j = floor_log2 (n - 1)"
  have "0 < n - 1" using n by simp
  from floor_log2_bounds [OF this]
  have b0: "2 ^ j \<le> n - 1" "n - 1 < 2 ^ Suc j" unfolding j_def by simp_all
  from b0(2) n have "n \<le> 2 ^ Suc j" by linarith
  note b = b0(1) this
  have bn: "binade a = - int (Suc j)"
    using assms by (simp add: binade_def n_def j_def)
  have "1 / a \<le> 2 ^ Suc j"
    using nat_le_pow2 [OF b(2)] u by linarith
  with assms have "1 \<le> 2 ^ Suc j * a"
    by (simp add: field_simps)
  then have "1 / 2 ^ Suc j \<le> a"
    by (simp add: field_simps)
  then have lo: "2 powi (- int (Suc j)) \<le> a"
    unfolding power_int_minus_divide power_int_of_nat .
  have "2 ^ j < 1 / a"
    using pow2_nat_le [OF b(1)] l by linarith
  with assms have "2 ^ j * a < 1"
    by (simp add: field_simps)
  then have "a < 1 / 2 ^ j"
    by (simp add: field_simps)
  then have "a < 2 powi (- int j)"
    unfolding power_int_minus_divide power_int_of_nat .
  moreover have "- int (Suc j) + 1 = - int j" by simp
  ultimately have hi: "a < 2 powi (- int (Suc j) + 1)" by simp
  from lo hi show ?thesis unfolding bn by simp
qed

lemma binade_bounds:
  assumes "0 < a"
  shows "2 powi binade a \<le> a" and "a < 2 powi (binade a + 1)"
  using binade_bounds_large [of a] binade_bounds_small [of a] assms
  by (cases "1 \<le> a"; simp)+

lemma binade_mono:
  assumes "0 < a" and "a \<le> b"
  shows "binade a \<le> binade b"
proof (rule ccontr)
  assume "\<not> binade a \<le> binade b"
  then have "binade b + 1 \<le> binade a" by simp
  then have "(2::rat) powi (binade b + 1) \<le> 2 powi binade a"
    by (rule power_int_increasing) simp
  moreover have "2 powi binade a \<le> a" using binade_bounds(1) assms by simp
  moreover have "b < 2 powi (binade b + 1)" using binade_bounds(2) [of b] assms by simp
  ultimately show False using assms(2) by linarith
qed


lemma nearest_even_int: "nearest_even (of_int i) = i"
  by (simp add: nearest_even_def)

lemma nearest_even_lower: "z - 1 / 2 \<le> of_int (nearest_even z)"
proof -
  have "of_int \<lfloor>z\<rfloor> \<le> z" "z < of_int \<lfloor>z\<rfloor> + 1" by linarith+
  then show ?thesis
    by (auto simp: nearest_even_def Let_def)
qed

lemma nearest_even_ge_one: "1 / 2 < z \<Longrightarrow> 1 \<le> nearest_even z"
proof -
  assume "1 / 2 < z"
  with nearest_even_lower [of z] have "(0::rat) < of_int (nearest_even z)" by linarith
  then show ?thesis by simp
qed

lemma nearest_even_nonneg: "0 \<le> z \<Longrightarrow> 0 \<le> nearest_even z"
proof -
  assume "0 \<le> z"
  with nearest_even_lower [of z] have "(- 1::rat) < of_int (nearest_even z)" by linarith
  then have "- 1 < nearest_even z" by (metis of_int_less_iff of_int_minus of_int_1)
  then show ?thesis by simp
qed

lemma quantum_cases:
  obtains "quantum a = - 1074" | "quantum a = binade a - 52"
  unfolding quantum_def by linarith

lemma pow2_split: "(2::rat) powi (k - j) * 2 powi j = 2 powi k"
  by (simp flip: power_int_add)

lemma pow2_pos: "(0::rat) < 2 powi k"
  by simp

lemma pow2_add: "(2::rat) powi j * 2 powi k = 2 powi (j + k)"
  by (simp add: power_int_add)

lemma pow2_double: "(2::rat) powi j * 2 = 2 powi (j + 1)"
  using pow2_add [of j 1] by simp

lemma scaled_ge_one:
  assumes "0 < a" and "quantum a = binade a - 52"
  shows "1 \<le> a / 2 powi quantum a"
proof -
  have "(2::rat) powi quantum a \<le> 2 powi binade a"
    by (rule power_int_increasing) (simp_all add: assms(2))
  also have "\<dots> \<le> a" using binade_bounds(1) [OF assms(1)] .
  finally have "1 * 2 powi quantum a \<le> a" by simp
  then show ?thesis by (simp only: pos_le_divide_eq [OF pow2_pos])
qed

lemma to_double_of_positive:
  assumes "0 < x"
  shows "to_double x = PInf
       \<or> to_double x = Fin (of_int (nearest_even (x / 2 powi quantum x)) * 2 powi quantum x)"
  using assms by (simp add: to_double_def round_positive_def Let_def)

lemma to_double_of_negative:
  assumes "x \<le> 0"
  shows "to_double x = NInf \<or> (\<exists>y. to_double x = Fin y \<and> y \<le> 0)"
proof (cases "x = 0")
  case True
  then show ?thesis by (simp add: to_double_def)
next
  case False
  with assms have x: "0 < - x" by simp
  have "0 \<le> - x / 2 powi quantum (- x)"
    using x pow2_pos [of "quantum (- x)"] by (intro divide_nonneg_pos) simp_all
  then have "0 \<le> nearest_even (- x / 2 powi quantum (- x))"
    by (rule nearest_even_nonneg)
  then have "(0::rat) \<le> of_int (nearest_even (- x / 2 powi quantum (- x))) * 2 powi quantum (- x)"
    by simp
  with to_double_of_positive [OF x] False assms show ?thesis
    by (auto simp: to_double_def)
qed

lemma to_double_not_positive:
  assumes "x \<le> 0"
  shows "\<not> positive (to_double x)"
  using to_double_of_negative [OF assms] by auto

lemma to_double_positive:
  assumes "2 powi (- 1075) < x"
  shows "positive (to_double x)"
proof -
  have x: "0 < x" using assms pow2_pos [of "- 1075"] by linarith
  have "1 / 2 < x / 2 powi quantum x"
  proof (cases x rule: quantum_cases)
    case 1
    have "(2::rat) powi (- 1075) * 2 = 2 powi (- 1075 + 1)"
      by (rule pow2_double)
    moreover have "(- 1075 + 1 :: int) = quantum x"
      unfolding 1 by simp
    ultimately have eq: "(2::rat) powi (- 1075) * 2 = 2 powi quantum x"
      by (simp only:)
    from assms have "2 powi (- 1075) * 2 < x * 2"
      by (rule mult_strict_right_mono) simp
    then have "2 powi quantum x < x * 2" unfolding eq .
    then have "1 / 2 * 2 powi quantum x < x" by simp
    then show ?thesis by (simp only: pos_less_divide_eq [OF pow2_pos])
  next
    case 2
    from scaled_ge_one [OF x 2] show ?thesis by linarith
  qed
  then have "1 \<le> nearest_even (x / 2 powi quantum x)"
    by (rule nearest_even_ge_one)
  then have "(0::rat) < of_int (nearest_even (x / 2 powi quantum x))" by simp
  then have "(0::rat) < of_int (nearest_even (x / 2 powi quantum x)) * 2 powi quantum x"
    using pow2_pos by (rule mult_pos_pos)
  with to_double_of_positive [OF x] show ?thesis by auto
qed

lemma to_double_half:
  assumes "2 powi (- 1074) \<le> x"
  shows "to_double x = PInf \<or> (\<exists>y. to_double x = Fin y \<and> x / 2 \<le> y)"
proof -
  have x: "0 < x" using assms pow2_pos [of "- 1074"] by linarith
  define z where "z = x / 2 powi quantum x"
  have "1 \<le> z"
  proof (cases x rule: quantum_cases)
    case 1
    from assms have "1 * 2 powi quantum x \<le> x" unfolding 1 by simp
    then show ?thesis unfolding z_def by (simp only: pos_le_divide_eq [OF pow2_pos])
  next
    case 2
    from scaled_ge_one [OF x 2] show ?thesis unfolding z_def .
  qed
  with nearest_even_lower [of z] have "z / 2 \<le> of_int (nearest_even z)" by linarith
  then have "z / 2 * 2 powi quantum x \<le> of_int (nearest_even z) * 2 powi quantum x"
    by (rule mult_right_mono) simp
  moreover have "z * 2 powi quantum x = x" unfolding z_def by simp
  ultimately have "x / 2 \<le> of_int (nearest_even z) * 2 powi quantum x"
    by (simp add: field_simps)
  with to_double_of_positive [OF x] show ?thesis unfolding z_def by auto
qed

lemma double_multiple:
  assumes "double x" and "0 < x"
  shows "\<exists>m::int. x = of_int m * 2 powi quantum x"
proof -
  from to_double_of_positive [OF assms(2)] assms(1)
  have "x = of_int (nearest_even (x / 2 powi quantum x)) * 2 powi quantum x"
    by (auto simp: double_def)
  then show ?thesis ..
qed

lemma quantum_mono:
  assumes "0 < a" and "a \<le> b"
  shows "quantum a \<le> quantum b"
  using binade_mono [OF assms] by (simp add: quantum_def)

lemma double_gap:
  assumes "double b" and "double t" and "0 < b" and "b < t"
  shows "2 powi quantum b \<le> t - b"
proof -
  from double_multiple [OF assms(1,3)] obtain mb :: int where
    mb: "b = of_int mb * 2 powi quantum b" by blast
  from assms have t: "0 < t" by simp
  from double_multiple [OF assms(2) t] obtain mt :: int where
    mt: "t = of_int mt * 2 powi quantum t" by blast
  define d where "d = nat (quantum t - quantum b)"
  define k where "k = mt * 2 ^ d - mb"
  have "quantum b \<le> quantum t" using quantum_mono [of b t] assms by simp
  then have "quantum t = quantum b + int d" unfolding d_def by simp
  then have "(2::rat) powi quantum t = 2 powi quantum b * 2 ^ d"
    by (simp add: power_int_add)
  then have "t = of_int (mt * 2 ^ d) * 2 powi quantum b"
    using mt by simp
  then have tb: "t - b = of_int k * 2 powi quantum b"
    using mb unfolding k_def by (simp add: algebra_simps)
  moreover have "0 < t - b" using assms by simp
  ultimately have "(0::rat) < of_int k * 2 powi quantum b" by simp
  then have "(0::rat) < of_int k"
    using pow2_pos by (rule zero_less_mult_pos2)
  then have "1 \<le> k" by simp
  then have "(1::rat) \<le> of_int k" by simp
  then have "1 * 2 powi quantum b \<le> of_int k * (2::rat) powi quantum b"
    by (rule mult_right_mono) simp
  with tb show ?thesis by simp
qed

lemma quotient_not_tiny:
  assumes "double b" and "double t" and "0 < b" and "b < t" and "(t - b) / 2 \<le> y"
  shows "2 powi (- 1075) < y / b"
proof -
  define c where "c = (2::rat) powi 53"
  have c: "0 < c" unfolding c_def by (rule pow2_pos)
  have q: "2 powi (binade b - 52) \<le> (2::rat) powi quantum b"
    by (rule power_int_increasing) (simp_all add: quantum_def)
  have "b < 2 powi (binade b + 1)" using binade_bounds(2) assms(3) by simp
  also have "(2::rat) powi (binade b + 1) = 2 powi (binade b - 52) * c"
  proof -
    have "binade b - 52 + 53 = binade b + 1" by simp
    with pow2_add [of "binade b - 52" 53] show ?thesis
      unfolding c_def by (simp only:)
  qed
  also have "\<dots> \<le> 2 powi quantum b * c"
    using q c by (simp add: mult_right_mono)
  also have "\<dots> \<le> (t - b) * c"
    using double_gap [OF assms(1-4)] c by (simp add: mult_right_mono)
  also have "\<dots> \<le> 2 * y * c"
    using assms(5) c by (simp add: mult_right_mono)
  finally have "b < y * (2 * c)" by (simp add: mult.commute mult.left_commute)
  moreover have "(2::rat) powi (- 54) * (2 * c) = 1"
  proof -
    have "(2::rat) powi (- 54) * 2 * 2 powi 53 = 2 powi (- 54 + 1 + 53)"
      by (simp only: pow2_double pow2_add)
    moreover have "(- 54 + 1 + 53 :: int) = 0" by simp
    ultimately have "(2::rat) powi (- 54) * 2 * 2 powi 53 = 1"
      by (simp only: power_int_0_right)
    then show ?thesis unfolding c_def by (simp only: mult.assoc)
  qed
  ultimately have "2 powi (- 54) * (2 * c) * b < y * (2 * c)" by simp
  then have "2 powi (- 54) * b * (2 * c) < y * (2 * c)" by (simp add: mult.commute mult.left_commute)
  then have "2 powi (- 54) * b < y"
    using c by (simp only: mult_less_cancel_right_pos [of "2 * c"]) 
  then have "2 powi (- 54) < y / b"
    by (simp only: pos_less_divide_eq [OF assms(3)])
  moreover have "(2::rat) powi (- 1075) \<le> 2 powi (- 54)"
    by (rule power_int_increasing) simp_all
  ultimately show ?thesis by linarith
qed


lemma change_positive_iff:
  assumes "double t" and "double b" and "0 < b"
  shows "positive (num_div (num_sub (Fin t) (Fin b)) (Fin b)) \<longleftrightarrow> b < t"
proof (cases "b < t")
  case True
  have "(2::rat) powi (- 1074) \<le> 2 powi quantum b"
    by (rule power_int_increasing) (simp_all add: quantum_def)
  with double_gap [OF assms(2,1,3) True] have "2 powi (- 1074) \<le> t - b" by linarith
  from to_double_half [OF this]
  have "positive (num_div (to_double (t - b)) (Fin b))"
  proof
    assume "to_double (t - b) = PInf"
    with assms(3) show ?thesis by simp
  next
    assume "\<exists>y. to_double (t - b) = Fin y \<and> (t - b) / 2 \<le> y"
    then obtain y where y: "to_double (t - b) = Fin y" "(t - b) / 2 \<le> y" by blast
    from quotient_not_tiny [OF assms(2,1,3) True y(2)]
    have "positive (to_double (y / b))" by (rule to_double_positive)
    with y(1) assms(3) show ?thesis by simp
  qed
  with True show ?thesis by (simp add: num_sub_def)
next
  case False
  then have "t - b \<le> 0" by simp
  from to_double_of_negative [OF this]
  have "\<not> positive (num_div (to_double (t - b)) (Fin b))"
  proof
    assume "to_double (t - b) = NInf"
    with assms(3) show ?thesis by simp
  next
    assume "\<exists>y. to_double (t - b) = Fin y \<and> y \<le> 0"
    then obtain y where y: "to_double (t - b) = Fin y" "y \<le> 0" by blast
    from y(2) assms(3) have "y / b \<le> 0" by (simp add: divide_nonpos_pos)
    then have "\<not> positive (to_double (y / b))" by (rule to_double_not_positive)
    with y(1) assms(3) show ?thesis by simp
  qed
  with False show ?thesis by (simp add: num_sub_def)
qed

lemma to_double_exact:
  assumes "0 < x" and "x / 2 powi quantum x = of_int i"
    and "quantum x < 971 \<or> (quantum x = 971 \<and> i < 2 ^ 53)"
  shows "to_double x = Fin x"
proof -
  have "of_int i * 2 powi quantum x = x"
    unfolding assms(2) [symmetric] by simp
  with assms show ?thesis
    by (auto simp: to_double_def round_positive_def Let_def nearest_even_int)
qed

lemma binade_nat:
  assumes "0 < n"
  shows "binade (of_nat n) = int (floor_log2 n)"
  using assms by (simp add: binade_def)

lemma whole_double:
  assumes "n \<le> 2 ^ 53"
  shows "to_double (of_nat n) = Fin (of_nat n)"
proof (cases "n = 0")
  case True
  then show ?thesis by (simp add: to_double_def)
next
  case False
  then have n: "0 < n" by simp
  define k where "k = floor_log2 n"
  from floor_log2_bounds [OF n] have lo: "2 ^ k \<le> n" unfolding k_def by simp
  from lo assms have "(2::nat) ^ k \<le> 2 ^ 53" by (rule order_trans)
  then have k: "k \<le> 53" by (simp only: power_increasing_iff [of 2]) 
  have q: "quantum (of_nat n) = int k - 52"
    using k by (simp add: quantum_def binade_nat [OF n] k_def)
  have "\<exists>i::int. of_nat n / 2 powi quantum (of_nat n) = (of_int i :: rat)"
  proof (cases "k = 53")
    case True
    with \<open>2 ^ k \<le> n\<close> assms have "n = 2 ^ 53" by simp
    then have "(of_nat n :: rat) = of_int (2 ^ 52) * 2" by simp
    moreover have "(2::rat) powi quantum (of_nat n) = 2"
      unfolding q True by simp
    ultimately have "of_nat n / 2 powi quantum (of_nat n) = (of_int (2 ^ 52) :: rat)"
      by (simp only: nonzero_mult_div_cancel_right)
    then show ?thesis ..
  next
    case False
    with k have "int k - 52 = - int (52 - k)" by simp
    then have "(2::rat) powi quantum (of_nat n) = 1 / 2 ^ (52 - k)"
      unfolding q by (simp only: power_int_minus_divide power_int_of_nat)
    then have "of_nat n / 2 powi quantum (of_nat n) = (of_int (int n * 2 ^ (52 - k)) :: rat)"
      by simp
    then show ?thesis ..
  qed
  then obtain i :: int where "of_nat n / 2 powi quantum (of_nat n) = (of_int i :: rat)" ..
  moreover have "quantum (of_nat n :: rat) < 971" unfolding q using k by simp
  moreover have "(0::rat) < of_nat n" using n by simp
  ultimately show ?thesis by (intro to_double_exact) simp_all
qed

lemma whole_sum:
  assumes "a + b \<le> 2 ^ 53"
  shows "num_add (Fin (of_nat a)) (Fin (of_nat b)) = Fin (of_nat (a + b))"
  using whole_double [OF assms] by simp


lemma nearest_even_upper: "of_int (nearest_even z) \<le> z + 1 / 2"
proof -
  have f: "of_int \<lfloor>z\<rfloor> \<le> z + 1 / 2" by linarith
  show ?thesis
  proof (cases "z - of_int \<lfloor>z\<rfloor> < 1 / 2")
    case True
    then have "nearest_even z = \<lfloor>z\<rfloor>" by (simp add: nearest_even_def Let_def)
    with f show ?thesis by (simp only:)
  next
    case False
    then have u: "of_int \<lfloor>z\<rfloor> + 1 \<le> z + 1 / 2" by linarith
    have "nearest_even z = \<lfloor>z\<rfloor> \<or> nearest_even z = \<lfloor>z\<rfloor> + 1"
      by (simp add: nearest_even_def Let_def)
    then show ?thesis
    proof
      assume "nearest_even z = \<lfloor>z\<rfloor>"
      with f show ?thesis by (simp only:)
    next
      assume "nearest_even z = \<lfloor>z\<rfloor> + 1"
      with u show ?thesis by (simp only: of_int_add of_int_1)
    qed
  qed
qed

lemma binade_unique:
  assumes "0 < y" and "2 powi k \<le> y" and "y < 2 powi (k + 1)"
  shows "binade y = k"
proof -
  have "\<not> binade y + 1 \<le> k"
  proof
    assume "binade y + 1 \<le> k"
    then have "(2::rat) powi (binade y + 1) \<le> 2 powi k"
      by (rule power_int_increasing) simp
    with binade_bounds(2) [OF assms(1)] assms(2) show False by linarith
  qed
  moreover have "\<not> k + 1 \<le> binade y"
  proof
    assume "k + 1 \<le> binade y"
    then have "(2::rat) powi (k + 1) \<le> 2 powi binade y"
      by (rule power_int_increasing) simp
    with binade_bounds(1) [OF assms(1)] assms(3) show False by linarith
  qed
  ultimately show ?thesis by simp
qed

lemma quantum_lower: "- 1074 \<le> quantum a"
  by (simp add: quantum_def)

lemma scaled_upper:
  assumes "0 < a"
  shows "a / 2 powi quantum a < 2 powi 53"
proof -
  have "binade a + 1 \<le> quantum a + 53" by (simp add: quantum_def)
  then have "(2::rat) powi (binade a + 1) \<le> 2 powi (quantum a + 53)"
    by (rule power_int_increasing) simp
  with binade_bounds(2) [OF assms] have "a < 2 powi (quantum a + 53)" by linarith
  then have "a < 2 powi 53 * 2 powi quantum a"
    by (simp only: pow2_add add.commute)
  then show ?thesis by (simp only: pos_divide_less_eq [OF pow2_pos])
qed

lemma scaled_lower:
  assumes "0 < a" and "quantum a = binade a - 52"
  shows "2 powi 52 \<le> a / 2 powi quantum a"
proof -
  have "binade a = 52 + quantum a" using assms(2) by simp
  then have "(2::rat) powi binade a = 2 powi 52 * 2 powi quantum a"
    by (simp only: pow2_add)
  with binade_bounds(1) [OF assms(1)] have "2 powi 52 * 2 powi quantum a \<le> a" by simp
  then show ?thesis by (simp only: pos_le_divide_eq [OF pow2_pos])
qed

lemma quantum_of_multiple:
  assumes "- 1074 \<le> e" and "0 < m"
    and "m < 2 ^ 53" and "m < 2 ^ 52 \<longrightarrow> e = - 1074"
  shows "quantum (of_int m * 2 powi e) = e"
proof (cases "m < 2 ^ 52")
  case False
  then have "(2::int) ^ 52 \<le> m" by simp
  then have "(of_int (2 ^ 52) :: rat) \<le> of_int m" by (simp only: of_int_le_iff)
  then have lo: "(2::rat) powi 52 \<le> of_int m" by simp
  from assms(3) have "(of_int m :: rat) < of_int (2 ^ 53)" by (simp only: of_int_less_iff)
  then have hi: "of_int m < (2::rat) powi 53" by simp
  have "(2::rat) powi (52 + e) = 2 powi 52 * 2 powi e" by (simp only: pow2_add)
  also have "\<dots> \<le> of_int m * 2 powi e"
    using lo by (rule mult_right_mono) simp
  finally have l: "(2::rat) powi (52 + e) \<le> of_int m * 2 powi e" .
  have "of_int m * 2 powi e < (2::rat) powi 53 * 2 powi e"
    using hi by (rule mult_strict_right_mono) simp
  also have "\<dots> = 2 powi (52 + e + 1)"
    by (simp only: pow2_add) (simp add: add.commute add.left_commute)
  finally have h: "of_int m * 2 powi e < (2::rat) powi (52 + e + 1)" .
  have "(0::rat) < of_int m * 2 powi e" using assms(2) by simp
  from binade_unique [OF this l h] assms(1) show ?thesis
    by (simp add: quantum_def)
next
  case True
  with assms(4) have e: "e = - 1074" by simp
  from True have "(of_int m :: rat) < of_int (2 ^ 52)" by (simp only: of_int_less_iff)
  then have hi: "of_int m < (2::rat) powi 52" by simp
  have y: "(0::rat) < of_int m * 2 powi e" using assms(2) by simp
  have "of_int m * 2 powi e < (2::rat) powi 52 * 2 powi e"
    using hi by (rule mult_strict_right_mono) simp
  also have "\<dots> = 2 powi (52 + e)" by (simp only: pow2_add)
  finally have "of_int m * 2 powi e < (2::rat) powi (52 + e)" .
  with binade_bounds(1) [OF y] have "(2::rat) powi binade (of_int m * 2 powi e) < 2 powi (52 + e)"
    by linarith
  then have "binade (of_int m * 2 powi e) < 52 + e"
    by (metis not_le power_int_increasing one_le_numeral)
  then show ?thesis unfolding e by (simp add: quantum_def)
qed

lemma to_double_multiple:
  assumes "- 1074 \<le> e" and "0 < m" and "m < 2 ^ 53" and "m < 2 ^ 52 \<longrightarrow> e = - 1074"
    and "e \<le> 971"
  shows "to_double (of_int m * 2 powi e) = Fin (of_int m * 2 powi e)"
proof -
  define x :: rat where "x = of_int m * 2 powi e"
  have q: "quantum x = e"
    unfolding x_def using assms(1-4) by (rule quantum_of_multiple)
  have "0 < x" unfolding x_def using assms(2) by simp
  moreover have "x / 2 powi quantum x = of_int m" unfolding q by (simp add: x_def)
  moreover have "quantum x < 971 \<or> (quantum x = 971 \<and> m < 2 ^ 53)"
    unfolding q using assms(3,5) by linarith
  ultimately have "to_double x = Fin x" by (rule to_double_exact)
  then show ?thesis unfolding x_def .
qed


lemma num_neg_twice: "num_neg (num_neg n) = n"
  by (cases n) simp_all

lemma to_double_minus: "to_double (- x) = num_neg (to_double x)"
  by (simp add: to_double_def num_neg_twice)

lemma to_double_idem_positive:
  assumes "0 < x" and "to_double x = Fin y"
  shows "to_double y = Fin y"
proof -
  define e where "e = quantum x"
  define z where "z = x / 2 powi e"
  define m where "m = nearest_even z"
  from assms have y: "y = of_int m * 2 powi e"
    and o: "\<not> 971 < e" "\<not> (e = 971 \<and> 2 ^ 53 \<le> m)"
    by (auto simp: to_double_def round_positive_def Let_def e_def z_def m_def split: if_splits)
  have e: "- 1074 \<le> e" unfolding e_def by (rule quantum_lower)
  have "0 \<le> z" unfolding z_def using assms(1) by simp
  then have m0: "0 \<le> m" unfolding m_def by (rule nearest_even_nonneg)
  have "z < 2 powi 53" unfolding z_def e_def using assms(1) by (rule scaled_upper)
  with nearest_even_upper [of z] have "(of_int m :: rat) < 2 powi 53 + 1 / 2"
    unfolding m_def by linarith
  then have "(of_int m :: rat) < of_int (2 ^ 53 + 1)" by simp
  then have "m < 2 ^ 53 + 1" by (simp only: of_int_less_iff)
  then have m1: "m \<le> 2 ^ 53" by simp
  show ?thesis
  proof (cases "m = 0")
    case True
    then show ?thesis unfolding y by (simp add: to_double_def)
  next
    case False
    with m0 have mp: "0 < m" by simp
    show ?thesis
    proof (cases "m = 2 ^ 53")
      case True
      have "y = of_int (2 ^ 52) * 2 powi (e + 1)"
      proof -
        have "(of_int m :: rat) = of_int (2 ^ 52) * 2" unfolding True by simp
        then have "y = of_int (2 ^ 52) * (2 powi e * 2)" unfolding y by (simp only: mult_ac)
        then show ?thesis by (simp only: pow2_double)
      qed
      moreover have "to_double (of_int (2 ^ 52) * 2 powi (e + 1)) = Fin (of_int (2 ^ 52) * 2 powi (e + 1))"
      proof (rule to_double_multiple)
        show "- 1074 \<le> e + 1" using e by simp
        show "e + 1 \<le> 971" using o True by simp
      qed simp_all
      ultimately show ?thesis by (simp only:)
    next
      case False
      with m1 have m2: "m < 2 ^ 53" by simp
      have "m < 2 ^ 52 \<longrightarrow> e = - 1074"
      proof
        assume s: "m < 2 ^ 52"
        show "e = - 1074"
        proof (rule ccontr)
          assume "e \<noteq> - 1074"
          then have "quantum x = binade x - 52"
            unfolding e_def by (cases x rule: quantum_cases) simp_all
          from scaled_lower [OF assms(1) this] have "2 powi 52 \<le> z"
            unfolding z_def e_def .
          with nearest_even_lower [of z] have "(2::rat) powi 52 - 1 / 2 \<le> of_int m"
            unfolding m_def by linarith
          then have "(of_int (2 ^ 52 - 1) :: rat) < of_int m" by simp
          then have "2 ^ 52 - 1 < m" by (simp only: of_int_less_iff)
          with s show False by simp
        qed
      qed
      with e mp m2 o(1) show ?thesis
        unfolding y by (intro to_double_multiple) simp_all
    qed
  qed
qed

lemma to_double_idem:
  assumes "to_double x = Fin y"
  shows "to_double y = Fin y"
proof (cases "0 < x")
  case True
  then show ?thesis using assms by (rule to_double_idem_positive)
next
  case False
  show ?thesis
  proof (cases "x = 0")
    case True
    with assms show ?thesis by (simp add: to_double_def)
  next
    case n: False
    with False have "0 < - x" by simp
    moreover have "to_double (- x) = Fin (- y)"
      using assms by (simp add: to_double_minus)
    ultimately have "to_double (- y) = Fin (- y)" by (rule to_double_idem_positive)
    then have "num_neg (to_double y) = Fin (- y)" by (simp only: to_double_minus)
    then show ?thesis by (cases "to_double y") simp_all
  qed
qed

lemma settled_to_double: "settled (to_double x)"
  by (cases "to_double x") (simp_all add: settled_def double_def to_double_idem)

lemma settled_num_add: "settled (num_add a b)"
  by (cases a; cases b) (simp_all add: settled_to_double, simp_all add: settled_def)

lemma num_add_zero: "settled a \<Longrightarrow> num_add a (Fin 0) = a"
  by (cases a) (simp_all add: settled_def double_def)

lemma double_at_least:
  assumes "double y" and "0 < y"
  shows "2 powi (- 1074) \<le> y"
proof -
  from double_multiple [OF assms] obtain m :: int where
    m: "y = of_int m * 2 powi quantum y" by blast
  with assms(2) have "(0::rat) < of_int m * 2 powi quantum y" by simp
  then have "(0::rat) < of_int m"
    using pow2_pos by (rule zero_less_mult_pos2)
  then have "1 \<le> m" by simp
  then have "(1::rat) \<le> of_int m" by simp
  then have "1 * 2 powi quantum y \<le> of_int m * (2::rat) powi quantum y"
    by (rule mult_right_mono) simp
  then have "2 powi quantum y \<le> y" using m by simp
  moreover have "(2::rat) powi (- 1074) \<le> 2 powi quantum y"
    by (rule power_int_increasing) (simp_all add: quantum_lower)
  ultimately show ?thesis by linarith
qed

lemma positive_times_100:
  assumes "settled r"
  shows "positive (num_mul r (Fin 100)) \<longleftrightarrow> positive r"
proof (cases r)
  case (Fin y)
  with assms have d: "double y" by (simp add: settled_def)
  show ?thesis
  proof (cases "0 < y")
    case True
    have "(2::rat) powi (- 1075) < 2 powi (- 1074)"
      by (rule power_int_strict_increasing) simp_all
    with double_at_least [OF d True] True have "2 powi (- 1075) < y * 100" by linarith
    from to_double_positive [OF this] True Fin show ?thesis by simp
  next
    case False
    then have "y * 100 \<le> 0" by (simp add: mult_nonpos_nonneg)
    from to_double_not_positive [OF this] False Fin show ?thesis by simp
  qed
qed simp_all

text \<open>Some roundings: a tenth, two ties, the smallest tie and the first overflow.\<close>

lemma rounding_examples:
  "to_double (1 / 10) = Fin (3602879701896397 / 36028797018963968)"
  "to_double (2 ^ 53 + 1) = Fin (2 ^ 53)"
  "to_double (2 ^ 53 + 3) = Fin (2 ^ 53 + 4)"
  "to_double (1 / 2 ^ 1075) = Fin 0"
  "to_double (2 ^ 1024) = PInf"
  by (simp_all add: double_eval)

lemma path_of_opath: "opath d a b \<noteq> Undefined \<Longrightarrow> path d a b = Inr (opath d a b)"
  by (auto simp: opath_def path_def oget_def get_def rbind_def split: if_splits)

lemma relative_change_numbers:
  "relative_change (Num t) (Num b) = Inr (num_div (num_sub t b) b)"
  by (simp add: relative_change_def js_sub_def to_number_def rbind_def)

lemma cost_change_numbers:
  assumes "opath test ''cost'' ''total_cost'' = Num (Fin t)"
      and "opath baseline ''cost'' ''total_cost'' = Num (Fin b)"
      and "t \<noteq> 0" and "b \<noteq> 0"
  shows "cost_change test baseline =
           Inr (Text (toFixed 2 (change_in_percent t b) @ ''%'' @
                      (if positive (change_ratio t b) then up_arrow else down_arrow)))"
  using assms
  by (simp add: cost_change_def path_of_opath relative_change_numbers rbind_def
      change_in_percent_def change_ratio_def)

lemma change_ratio_settled: "b \<noteq> 0 \<Longrightarrow> settled (change_ratio t b)"
  by (cases "to_double (t + - b)")
    (simp_all add: change_ratio_def num_sub_def settled_to_double, simp_all add: settled_def)

lemma change_positive:
  "b \<noteq> 0 \<Longrightarrow> positive (change_in_percent t b) \<longleftrightarrow> positive (change_ratio t b)"
  unfolding change_in_percent_def by (rule positive_times_100) (rule change_ratio_settled)

lemma cost_change_missing:
  assumes "\<not> truthy (opath test ''cost'' ''total_cost'')
           \<or> \<not> truthy (opath baseline ''cost'' ''total_cost'')"
  shows "cost_change test baseline = Inr NA"
  using assms by (auto simp add: cost_change_def)

lemma cost_change_cell_docs:
  "doc testRun ''test'' = Inr test \<Longrightarrow> doc testRun ''baseline'' = Inr baseline \<Longrightarrow>
   cost_change_cell testRun = cost_change test baseline"
  by (simp add: cost_change_cell_def rbind_def)

section \<open>Complete runs\<close>

text \<open>
  The filter keeps a run exactly when its status is the string \<^verbatim>\<open>COMPLETE\<close>, and the
  flag is raised exactly when some run has another status (for a metrics object none
  of whose runs is null).
\<close>

lemma complete_runs_filter:
  assumes "\<forall>(testRunId, testRun) \<in> set kvs. \<not> nullish testRun"
  shows "filter_result (\<lambda>(testRunId, testRun). status_is_COMPLETE testRun) kvs =
           Inr (filter (\<lambda>(testRunId, testRun). read_prop testRun ''status'' = Str ''COMPLETE'') kvs)"
  using assms
  by (induction kvs) (auto simp: status_is_COMPLETE_def get_def rbind_def)

lemma incomplete_runs_some:
  assumes "\<forall>testRun \<in> set rs. \<not> nullish testRun"
  shows "some_result (\<lambda>testRun. rbind (status_is_COMPLETE testRun) (\<lambda>b. Inr (\<not> b))) rs =
           Inr (\<exists>testRun \<in> set rs. read_prop testRun ''status'' \<noteq> Str ''COMPLETE'')"
  using assms
  by (induction rs) (auto simp: status_is_COMPLETE_def get_def rbind_def)

text \<open>
  Claim C1. The fetched runs are partitioned by status, the runs whose status equals
  COMPLETED being the complete ones, and \<^verbatim>\<open>hasIncompleteRuns\<close> is true if and only if
  some fetched run has another status. The component compares with the string
  \<^verbatim>\<open>COMPLETE\<close>: a single fetched run whose status is COMPLETED, the status the
  repository's Test Studio guide documents for a finished run, is left out of the
  complete runs and raises the flag.
\<close>

theorem completed_run_counts_as_incomplete:
  "completeTestRuns (Obj [(''run-1'', run_of ''COMPLETED'' (cost_doc (Num (Fin 10))) (cost_doc (Num (Fin 8))))])
     = Inr []
   \<and> hasIncompleteRuns (Obj [(''run-1'', run_of ''COMPLETED'' (cost_doc (Num (Fin 10))) (cost_doc (Num (Fin 8))))])
     = Inr True"
  by (simp add: js_eval cell_eval)

section \<open>The Cost Change row\<close>

text \<open>
  Claim C2, as the code has it. For a complete run whose two documents are at hand
  (objects, or text that parses): when both \<^verbatim>\<open>cost.total_cost\<close> fields are numbers other
  than zero, the Cost Change cell is \<^verbatim>\<open>(test - baseline) / baseline * 100\<close>, computed in
  double arithmetic and printed with two decimals, then a percent sign and an up arrow
  when the change is positive, a down arrow otherwise; when the total cost of either
  side is zero, null, absent or falsy in another way, the cell is \<^verbatim>\<open>N/A\<close>. The code
  tests the quotient before it is multiplied by 100; the product is positive exactly
  when the quotient is.
\<close>

theorem cost_change_cell_value:
  assumes "doc testRun ''test'' = Inr test" and "doc testRun ''baseline'' = Inr baseline"
      and "opath test ''cost'' ''total_cost'' = tc"
      and "opath baseline ''cost'' ''total_cost'' = bc"
  shows "(tc = Num (Fin t) \<and> bc = Num (Fin b) \<and> t \<noteq> 0 \<and> b \<noteq> 0 \<longrightarrow>
            cost_change_cell testRun =
              Inr (Text (toFixed 2 (change_in_percent t b) @ ''%'' @
                         (if positive (change_in_percent t b) then up_arrow else down_arrow))))
       \<and> (\<not> truthy tc \<or> \<not> truthy bc \<longrightarrow> cost_change_cell testRun = Inr NA)"
proof (intro conjI impI)
  assume "tc = Num (Fin t) \<and> bc = Num (Fin b) \<and> t \<noteq> 0 \<and> b \<noteq> 0"
  with assms show "cost_change_cell testRun =
      Inr (Text (toFixed 2 (change_in_percent t b) @ ''%'' @
                 (if positive (change_in_percent t b) then up_arrow else down_arrow)))"
    by (simp add: cost_change_cell_docs cost_change_numbers change_positive)
next
  assume "\<not> truthy tc \<or> \<not> truthy bc"
  with assms show "cost_change_cell testRun = Inr NA"
    by (simp add: cost_change_cell_docs cost_change_missing)
qed

text \<open>
  The two runs of scenario C: test 10.0 against baseline 8.0 gives \<^verbatim>\<open>25.00%\<close> with the
  up arrow, and a baseline of 0 gives \<^verbatim>\<open>N/A\<close>. With 183 against 160 the quotient
  \<^verbatim>\<open>23 / 160\<close> is not a double: the product with 100 falls just below 14.375, and the
  cell reads \<^verbatim>\<open>14.37%\<close> where exact arithmetic would print \<^verbatim>\<open>14.38%\<close>.
\<close>

lemma ratio_of_183_160:
  "change_ratio 183 160 = Fin (2589569785738035 / 18014398509481984)"
  "change_in_percent 183 160 = Fin (8092405580431359 / 562949953421312)"
  by (simp_all add: change_in_percent_def change_ratio_def num_sub_def double_eval)

lemma change_of_183_160:
  "toFixed 2 (change_in_percent 183 160) = ''14.37''"
  "positive (change_in_percent 183 160)"
  by (simp_all add: ratio_of_183_160 digits_eval)

lemma change_of_10_8:
  "toFixed 2 (change_in_percent 10 8) = ''25.00''"
  "positive (change_in_percent 10 8)"
  by (simp_all add: change_in_percent_def change_ratio_def num_sub_def double_eval digits_eval)

lemma cost_run_docs:
  "doc (run_of st (cost_doc t) (cost_doc b)) ''test'' = Inr (cost_doc t)"
  "doc (run_of st (cost_doc t) (cost_doc b)) ''baseline'' = Inr (cost_doc b)"
  "opath (cost_doc v) ''cost'' ''total_cost'' = v"
  by (simp_all add: doc_def get_def rbind_def read_prop_def parsed_def run_of_def cost_doc_def
      opath_def oget_def)

theorem cost_change_cell_value_witness:
  "cost_change_cell (run_of ''COMPLETE'' (cost_doc (Num (Fin 10))) (cost_doc (Num (Fin 8))))
     = Inr (Text (''25.00%'' @ up_arrow))
   \<and> cost_change_cell (run_of ''COMPLETE'' (cost_doc (Num (Fin 183))) (cost_doc (Num (Fin 160))))
     = Inr (Text (''14.37%'' @ up_arrow))
   \<and> cost_change_cell (run_of ''COMPLETE'' (cost_doc (Num (Fin 10))) (cost_doc (Num (Fin 0))))
     = Inr NA"
proof (intro conjI)
  have o: "opath (cost_doc (Num (Fin x))) ''cost'' ''total_cost'' = Num (Fin x)" for x
    by (rule cost_run_docs)
  let ?r = "run_of ''COMPLETE'' (cost_doc (Num (Fin 10))) (cost_doc (Num (Fin 8)))"
  have "doc ?r ''test'' = Inr (cost_doc (Num (Fin 10)))"
    and "doc ?r ''baseline'' = Inr (cost_doc (Num (Fin 8)))"
    by (rule cost_run_docs)+
  from cost_change_cell_value [OF this o o, of 10 8]
  show "cost_change_cell ?r = Inr (Text (''25.00%'' @ up_arrow))"
    by (simp add: change_of_10_8)
  let ?r = "run_of ''COMPLETE'' (cost_doc (Num (Fin 183))) (cost_doc (Num (Fin 160)))"
  have "doc ?r ''test'' = Inr (cost_doc (Num (Fin 183)))"
    and "doc ?r ''baseline'' = Inr (cost_doc (Num (Fin 160)))"
    by (rule cost_run_docs)+
  from cost_change_cell_value [OF this o o, of 183 160]
  show "cost_change_cell ?r = Inr (Text (''14.37%'' @ up_arrow))"
    by (simp add: change_of_183_160)
  let ?r = "run_of ''COMPLETE'' (cost_doc (Num (Fin 10))) (cost_doc (Num (Fin 0)))"
  have "doc ?r ''test'' = Inr (cost_doc (Num (Fin 10)))"
    and "doc ?r ''baseline'' = Inr (cost_doc (Num (Fin 0)))"
    by (rule cost_run_docs)+
  from cost_change_cell_value [OF this o o]
  show "cost_change_cell ?r = Inr NA"
    by simp
qed

text \<open>
  The claim as it was stated fails on two inputs. With a test cost of 0 against a
  baseline of 8 the formula gives \<^verbatim>\<open>-100.00%\<close> with the down arrow, and the cell is
  \<^verbatim>\<open>N/A\<close>. With a baseline cost that is not a number, here the text \<^verbatim>\<open>8\<close>, no cell
  shows \<^verbatim>\<open>N/A\<close>: the Baseline Cost row, which comes first, calls \<^verbatim>\<open>toFixed\<close> on the
  text and throws, and the Cost Breakdown table is lost.
\<close>

theorem cost_change_cell_counterexample:
  "cost_change_cell (run_of ''COMPLETE'' (cost_doc (Num (Fin 0))) (cost_doc (Num (Fin 8)))) = Inr NA
   \<and> toFixed 2 (change_in_percent 0 8) @ ''%'' @
       (if positive (change_in_percent 0 8) then up_arrow else down_arrow)
       = ''-100.00%'' @ down_arrow
   \<and> NA \<noteq> Text (''-100.00%'' @ down_arrow)
   \<and> cost_breakdown
        [(''run-1'', run_of ''COMPLETE'' (cost_doc (Num (Fin 10))) (cost_doc (Str ''8'')))]
       = Inl TypeError"
proof (intro conjI)
  show "cost_change_cell (run_of ''COMPLETE'' (cost_doc (Num (Fin 0))) (cost_doc (Num (Fin 8))))
      = Inr NA"
    by (simp add: cost_change_cell_def cost_run_docs rbind_def cost_change_def)
  show "toFixed 2 (change_in_percent 0 8) @ ''%'' @
       (if positive (change_in_percent 0 8) then up_arrow else down_arrow)
       = ''-100.00%'' @ down_arrow"
    by (simp add: change_in_percent_def change_ratio_def num_sub_def double_eval digits_eval)
  show "NA \<noteq> Text (''-100.00%'' @ down_arrow)"
    by simp
  show "cost_breakdown
        [(''run-1'', run_of ''COMPLETE'' (cost_doc (Num (Fin 10))) (cost_doc (Str ''8'')))]
       = Inl TypeError"
  proof -
    let ?r = "run_of ''COMPLETE'' (cost_doc (Num (Fin 10))) (cost_doc (Str ''8''))"
    have "test_set_cell ?r = Inr NA"
      by (simp add: test_set_cell_def run_of_def get_def read_prop_def rbind_def or_NA_def)
    moreover have "test_cost_cell ?r = Inr (Text ''$10.0000'')"
      by (simp add: test_cost_cell_def cost_run_docs rbind_def dollars_def path_of_opath
          call_toFixed_def digits_eval)
    moreover have "baseline_cost_cell ?r = Inl TypeError"
      by (simp add: baseline_cost_cell_def cost_run_docs rbind_def dollars_def path_of_opath
          call_toFixed_def)
    ultimately show ?thesis
      by (simp add: cost_breakdown_def table_or_def row_def rbind_def)
  qed
qed

section \<open>Zero and missing fields\<close>

lemma percent_zero: "percent (Num (Fin 0)) = Inr (Text ''0.00%'')"
  by (simp add: percent_def js_eval)

lemma truthy_percent_falsy: "\<not> truthy (opath d a b) \<Longrightarrow> truthy_percent d a b = Inr NA"
  by (simp add: truthy_percent_def)

lemma dollars_falsy: "\<not> truthy (opath d ''cost'' ''total_cost'') \<Longrightarrow> dollars d = Inr NA"
  by (simp add: dollars_def)

lemma present_percent_zero:
  "opath d a b = Num (Fin 0) \<Longrightarrow> present_percent d a b = Inr (Text ''0.00%'')"
  by (simp add: present_percent_def path_of_opath rbind_def percent_zero)

lemma present_percent_missing:
  "nullish (opath d a b) \<Longrightarrow> present_percent d a b = Inr NA"
  by (cases "opath d a b") (simp_all add: present_percent_def)

text \<open>
  Claim C9. In the Accuracy Breakdown and Cost Breakdown tables a field whose value is
  the number 0 (precision, recall, F1 score of the test document, total cost of either
  side) gives the cell \<^verbatim>\<open>N/A\<close>, the same cell as an absent field, because the field is
  tested by truthiness; the Accuracy row of Performance Metrics tests against null and
  undefined, and gives \<^verbatim>\<open>0.00%\<close> for the value 0 and \<^verbatim>\<open>N/A\<close> for an absent field. Below
  \<open>z\<close> is either the number 0 or the absent field.
\<close>

theorem zero_shown_as_missing:
  assumes "doc testRun ''test'' = Inr test" and "doc testRun ''baseline'' = Inr baseline"
      and "z = Num (Fin 0) \<or> z = Undefined"
  shows "(opath test ''accuracy'' ''precision'' = z \<longrightarrow> precision_cell testRun = Inr NA)
       \<and> (opath test ''accuracy'' ''recall'' = z \<longrightarrow> recall_cell testRun = Inr NA)
       \<and> (opath test ''accuracy'' ''f1_score'' = z \<longrightarrow> f1_score_cell testRun = Inr NA)
       \<and> (opath test ''cost'' ''total_cost'' = z \<longrightarrow> test_cost_cell testRun = Inr NA)
       \<and> (opath baseline ''cost'' ''total_cost'' = z \<longrightarrow> baseline_cost_cell testRun = Inr NA)
       \<and> (opath test ''accuracy'' ''accuracy'' = z \<longrightarrow>
            accuracy_cell testRun = Inr (if z = Undefined then NA else Text ''0.00%''))"
proof -
  have z: "\<not> truthy z" using assms(3) by auto
  show ?thesis
    using assms z
    by (auto simp: precision_cell_def recall_cell_def f1_score_cell_def test_cost_cell_def
        baseline_cost_cell_def accuracy_cell_def rbind_def truthy_percent_falsy dollars_falsy
        present_percent_zero present_percent_missing)
qed

theorem zero_shown_as_missing_witness:
  "precision_cell zero_run = Inr NA \<and> precision_cell empty_run = Inr NA
   \<and> recall_cell zero_run = Inr NA \<and> recall_cell empty_run = Inr NA
   \<and> f1_score_cell zero_run = Inr NA \<and> f1_score_cell empty_run = Inr NA
   \<and> test_cost_cell zero_run = Inr NA \<and> test_cost_cell empty_run = Inr NA
   \<and> baseline_cost_cell zero_run = Inr NA \<and> baseline_cost_cell empty_run = Inr NA
   \<and> accuracy_cell zero_run = Inr (Text ''0.00%'') \<and> accuracy_cell empty_run = Inr NA"
proof -
  have d0: "doc zero_run ''test'' =
      Inr (Obj [(''accuracy'', Obj [(''accuracy'', Num (Fin 0)), (''precision'', Num (Fin 0)),
                                    (''recall'', Num (Fin 0)), (''f1_score'', Num (Fin 0))]),
                (''cost'', Obj [(''total_cost'', Num (Fin 0))])])"
    and b0: "doc zero_run ''baseline'' = Inr (cost_doc (Num (Fin 0)))"
    and d1: "doc empty_run ''test'' = Inr (Obj [])"
    and b1: "doc empty_run ''baseline'' = Inr (Obj [])"
    by (simp_all add: zero_run_def empty_run_def js_eval cell_eval)
  show ?thesis
    using zero_shown_as_missing [OF d0 b0, of "Num (Fin 0)"]
          zero_shown_as_missing [OF d1 b1, of Undefined]
    by (simp add: js_eval cell_eval)
qed

section \<open>The arrow of a change\<close>

lemmas text_eval = parseFloat_def string_to_number_def fixed_text_value_def
  unsigned_decimal_def digit_value_def two_decimals_def hundredths_def short_digits_def

lemma to_double_zero: "to_double 0 = Fin 0"
  by (simp add: to_double_def)

lemma change_of_equal:
  assumes "b \<noteq> 0"
  shows "change_ratio b b = Fin 0" and "change_in_percent b b = Fin 0"
  using assms by (simp_all add: change_in_percent_def change_ratio_def num_sub_def to_double_zero)

lemma zero_fixed: "fixed_digits 2 0 = ''0.00''"
  by (simp add: digits_eval)

lemma calculateChange_same:
  assumes "x \<noteq> 0"
  shows "calculateChange (Num (Fin x)) (Num (Fin x)) = Inr ''0%''"
proof -
  have "relative_change (Num (Fin x)) (Num (Fin x)) = Inr (Fin 0)"
    using assms by (simp add: relative_change_numbers num_sub_def to_double_zero)
  then show ?thesis
    using assms
    by (simp add: calculateChange_def rbind_def zero_fixed to_double_zero text_eval
        floor_rat_one show_nat_digit)
qed

lemma calculateChange_examples:
  "calculateChange (Num (Fin 150)) (Num (Fin 100)) = Inr (''50%'' @ up_arrow)"
  "calculateChange (Num (Fin 90)) (Num (Fin 120)) = Inr (''25%'' @ down_arrow)"
  "calculateChange (Num (Fin 100)) (Num (Fin 0)) = Inr ''N/A''"
  by (simp_all add: calculateChange_def relative_change_numbers rbind_def js_eval text_eval)

text \<open>
  Claim C10. A cost is an amount of money: the two total costs are doubles other than
  zero and the baseline cost is positive. Then the Cost Change string carries the up
  arrow exactly when the test cost is strictly greater than the baseline cost, and the
  down arrow otherwise. Two equal costs give \<^verbatim>\<open>0.00%\<close> with the down arrow, whereas
  \<^verbatim>\<open>calculateChange\<close> on two equal values gives \<^verbatim>\<open>0%\<close> with no arrow.
\<close>

theorem cost_change_arrow:
  assumes "doc testRun ''test'' = Inr test" and "doc testRun ''baseline'' = Inr baseline"
      and "opath test ''cost'' ''total_cost'' = Num (Fin t)"
      and "opath baseline ''cost'' ''total_cost'' = Num (Fin b)"
      and "t \<noteq> 0" and "b \<noteq> 0"
  shows "(double t \<and> double b \<and> 0 < b \<longrightarrow>
            cost_change_cell testRun =
              Inr (Text (toFixed 2 (change_in_percent t b) @ ''%'' @
                         (if b < t then up_arrow else down_arrow))))
       \<and> (t = b \<longrightarrow> cost_change_cell testRun = Inr (Text (''0.00%'' @ down_arrow)))
       \<and> calculateChange (Num (Fin b)) (Num (Fin b)) = Inr ''0%''"
proof (intro conjI impI)
  have c: "cost_change_cell testRun =
      Inr (Text (toFixed 2 (change_in_percent t b) @ ''%'' @
                 (if positive (change_ratio t b) then up_arrow else down_arrow)))"
    using assms by (simp add: cost_change_cell_docs cost_change_numbers)
  {
    assume "double t \<and> double b \<and> 0 < b"
    then have "positive (change_ratio t b) \<longleftrightarrow> b < t"
      unfolding change_ratio_def by (simp add: change_positive_iff)
    with c show "cost_change_cell testRun =
        Inr (Text (toFixed 2 (change_in_percent t b) @ ''%'' @
                   (if b < t then up_arrow else down_arrow)))"
      by simp
  }
  {
    assume "t = b"
    with c assms(6) show "cost_change_cell testRun = Inr (Text (''0.00%'' @ down_arrow))"
      by (simp add: change_of_equal zero_fixed)
  }
  show "calculateChange (Num (Fin b)) (Num (Fin b)) = Inr ''0%''"
    using assms(6) by (rule calculateChange_same)
qed

text \<open>
  Equal costs, a test cost above the baseline and one below it.
\<close>

lemma change_of_8_10: "toFixed 2 (change_in_percent 8 10) = ''-20.00''"
  by (simp add: change_in_percent_def change_ratio_def num_sub_def double_eval digits_eval)

lemma whole_doubles: "double 5" "double 8" "double 10" "double 160" "double 183"
  by (simp_all add: double_def double_eval)

theorem cost_change_arrow_witness:
  "cost_change_cell (run_of ''COMPLETE'' (cost_doc (Num (Fin 5))) (cost_doc (Num (Fin 5))))
     = Inr (Text (''0.00%'' @ down_arrow))
   \<and> calculateChange (Num (Fin 5)) (Num (Fin 5)) = Inr ''0%''
   \<and> cost_change_cell (run_of ''COMPLETE'' (cost_doc (Num (Fin 183))) (cost_doc (Num (Fin 160))))
     = Inr (Text (''14.37%'' @ up_arrow))
   \<and> cost_change_cell (run_of ''COMPLETE'' (cost_doc (Num (Fin 8))) (cost_doc (Num (Fin 10))))
     = Inr (Text (''-20.00%'' @ down_arrow))"
proof -
  have o: "opath (cost_doc (Num (Fin x))) ''cost'' ''total_cost'' = Num (Fin x)" for x
    by (rule cost_run_docs)
  have d: "doc (run_of ''COMPLETE'' (cost_doc (Num (Fin x))) (cost_doc (Num (Fin y)))) ''test''
             = Inr (cost_doc (Num (Fin x)))"
    "doc (run_of ''COMPLETE'' (cost_doc (Num (Fin x))) (cost_doc (Num (Fin y)))) ''baseline''
             = Inr (cost_doc (Num (Fin y)))" for x y
    by (rule cost_run_docs)+
  have n: "(5::rat) \<noteq> 0" "(8::rat) \<noteq> 0" "(10::rat) \<noteq> 0" "(160::rat) \<noteq> 0" "(183::rat) \<noteq> 0"
    by simp_all
  from cost_change_arrow [OF d o o n(1) n(1)]
       cost_change_arrow [OF d o o n(5) n(4)]
       cost_change_arrow [OF d o o n(2) n(3)]
  show ?thesis
    by (simp add: whole_doubles change_of_183_160 change_of_8_10 change_of_equal zero_fixed)
qed

text \<open>
  Nothing in the component keeps a cost positive. With a negative baseline the quotient
  changes sign, and the arrow with it: a test cost of -1 against a baseline of -2 reads
  \<^verbatim>\<open>-50.00%\<close> with the down arrow.
\<close>

lemma negative_baseline_change:
  "cost_change_cell (run_of ''COMPLETE'' (cost_doc (Num (Fin (- 1)))) (cost_doc (Num (Fin (- 2)))))
     = Inr (Text (''-50.00%'' @ down_arrow))"
  by (simp add: cost_change_cell_def cost_run_docs rbind_def cost_change_def path_of_opath
      relative_change_numbers num_sub_def double_eval digits_eval)

section \<open>Configuration Differences\<close>

lemma show_nat_digits: "set (show_nat n) \<subseteq> set ''0123456789''"
proof (induction n rule: show_nat.induct)
  case (1 n)
  show ?case
  proof (cases "n < 10")
    case True
    then have "''0123456789'' ! n \<in> set ''0123456789''"
      by (intro nth_mem) simp
    with True show ?thesis by (subst show_nat.simps) simp
  next
    case False
    have "''0123456789'' ! (n mod 10) \<in> set ''0123456789''"
      by (intro nth_mem) simp
    with False 1 show ?thesis by (subst show_nat.simps) simp
  qed
qed

lemma index_key_not:
  assumes "\<not> set k \<subseteq> set ''0123456789''"
  shows "map_of (zip (map show_nat [0..<n]) vs) k = None"
proof -
  have "k \<notin> set (map show_nat [0..<n])"
    using assms show_nat_digits by auto
  then have "k \<notin> fst ` set (zip (map show_nat [0..<n]) vs)"
    by (metis (no_types, lifting) image_iff prod.collapse set_zip_leftD)
  then show ?thesis by (simp add: map_of_eq_None_iff)
qed

lemma read_length_list: "read_prop (Arr xs) ''length'' = Num (Fin (of_nat (length xs)))"
  by (simp add: read_prop_def index_key_not)

lemma has_items_list: "has_items (Arr xs) = Inr (xs \<noteq> [])"
  by (simp add: has_items_def greater_than_zero_def read_length_list to_number_def rbind_def)

text \<open>
  Claim C5, as the code has it. For any number of supplied run ids other than 2 the
  section shows the notice that configuration differences need exactly 2 runs, with
  the number supplied. With 2 ids, the table is produced when the comparison holds a
  non-empty list of configuration rows; with an empty list, or none, the section shows
  \<^verbatim>\<open>No configuration data found\<close>. A table is never produced for another number of ids.
\<close>

theorem configuration_table_when:
  "(length ids \<noteq> 2 \<longrightarrow> configuration_differences ids configs = Inr (OnlyForTwo (length ids)))
   \<and> (length ids = 2 \<longrightarrow>
        configuration_differences ids (Arr xs) =
          Inr (if xs \<noteq> [] then ConfigTable (Arr xs) ids else NoConfigData))
   \<and> (length ids = 2 \<and> nullish configs \<longrightarrow>
        configuration_differences ids configs = Inr NoConfigData)
   \<and> ((\<exists>items columns. configuration_differences ids configs = Inr (ConfigTable items columns))
        \<longrightarrow> length ids = 2)"
proof (intro conjI impI)
  assume "length ids \<noteq> 2"
  then show "configuration_differences ids configs = Inr (OnlyForTwo (length ids))"
    by (simp add: configuration_differences_def)
next
  assume "length ids = 2"
  then show "configuration_differences ids (Arr xs) =
          Inr (if xs \<noteq> [] then ConfigTable (Arr xs) ids else NoConfigData)"
    by (simp add: configuration_differences_def rbind_def has_items_list greater_than_zero_def
        read_length_list to_number_def)
next
  assume "length ids = 2 \<and> nullish configs"
  then show "configuration_differences ids configs = Inr NoConfigData"
    by (cases configs) (simp_all add: configuration_differences_def has_items_def rbind_def)
next
  assume "\<exists>items columns. configuration_differences ids configs = Inr (ConfigTable items columns)"
  then show "length ids = 2"
    by (auto simp: configuration_differences_def split: if_splits)
qed

text \<open>
  Scenario D supplies three ids; two ids with one differing setting give the table.
\<close>

theorem configuration_table_when_witness:
  "configuration_differences [''run-1'', ''run-2'', ''run-3''] (Arr []) = Inr (OnlyForTwo 3)
   \<and> configuration_differences [''run-1'', ''run-2''] (Arr [model_row])
      = Inr (ConfigTable (Arr [model_row]) [''run-1'', ''run-2''])
   \<and> configuration_differences [''run-1'', ''run-2''] Null = Inr NoConfigData"
  using configuration_table_when [of "[''run-1'', ''run-2'', ''run-3'']" "Arr []"]
        configuration_table_when [of "[''run-1'', ''run-2'']" Null "[model_row]"]
  by simp

text \<open>
  The claim as it was stated produces the table whenever 2 ids are supplied. With 2
  ids and an empty list of configuration rows there is no table.
\<close>

theorem configuration_table_counterexample:
  "length [''run-1'', ''run-2''] = 2
   \<and> configuration_differences [''run-1'', ''run-2''] (Arr []) = Inr NoConfigData"
  by (simp add: configuration_differences_def has_items_list rbind_def)

section \<open>The single-flight invariant and the status order\<close>

lemma find_id_map:
  assumes "\<And>x. testRunId (f x) = testRunId x"
  shows "find (\<lambda>r. testRunId r = rid) (map f st) = map_option f (find (\<lambda>r. testRunId r = rid) st)"
  using assms by (induction st) auto

lemma get_run_None: "get_run st rid = None \<longleftrightarrow> rid \<notin> testRunId ` set st"
  by (auto simp: get_run_def find_None_iff)

lemma get_run_Some: "get_run st rid = Some r \<Longrightarrow> r \<in> set st \<and> testRunId r = rid"
  by (auto simp: get_run_def find_Some_iff)

lemma unique_ids_same:
  assumes "unique_ids st" and "r \<in> set st" and "x \<in> set st" and "testRunId x = testRunId r"
  shows "x = r"
  using assms by (auto simp: unique_ids_def distinct_map inj_on_def)

lemma testRunId_write [simp]:
  "testRunId ((write_fields fs x)\<lparr>run_status := n, updatedAt := now\<rparr>) = testRunId x"
  by (simp add: write_fields_def)

lemma run_status_write [simp]:
  "run_status ((write_fields fs x)\<lparr>run_status := n, updatedAt := now\<rparr>) = n"
  by simp

lemma updateStatus_cases:
  assumes "updateStatus st rid e n fs now = Inr st'"
  obtains r :: test_run where "get_run st rid = Some r" and "run_status r = e"
    and "terminal e \<longrightarrow> terminal n"
    and "st' = map (\<lambda>x. if testRunId x = rid
                          then (write_fields fs x)\<lparr>run_status := n, updatedAt := now\<rparr> else x) st"
  using assms by (auto simp: updateStatus_def split: option.splits if_splits)

lemma filter_map_le:
  assumes "\<And>x. x \<in> set st \<Longrightarrow> P (f x) \<Longrightarrow> P x"
  shows "length (filter P (map f st)) \<le> length (filter P st)"
  using assms by (induction st) auto

lemma updateStatus_unique_ids:
  assumes "updateStatus st rid e n fs now = Inr st'" and "unique_ids st"
  shows "unique_ids st'"
proof -
  from assms(1) obtain r where
    st': "st' = map (\<lambda>x. if testRunId x = rid
                          then (write_fields fs x)\<lparr>run_status := n, updatedAt := now\<rparr> else x) st"
    by (rule updateStatus_cases)
  have "map testRunId st' = map testRunId st"
    unfolding st' by (induction st) auto
  with assms(2) show ?thesis by (simp add: unique_ids_def)
qed

lemma updateStatus_single_flight:
  assumes "updateStatus st rid e n fs now = Inr st'" and "unique_ids st" and "single_flight st"
  shows "single_flight st'"
proof -
  from assms(1) obtain r where r: "get_run st rid = Some r" "run_status r = e"
    and t: "terminal e \<longrightarrow> terminal n"
    and st': "st' = map (\<lambda>x. if testRunId x = rid
                          then (write_fields fs x)\<lparr>run_status := n, updatedAt := now\<rparr> else x) st"
    by (rule updateStatus_cases)
  have "length (listActive st') \<le> length (listActive st)"
    unfolding listActive_def st'
  proof (rule filter_map_le)
    fix x assume x: "x \<in> set st"
      and a: "\<not> terminal (run_status (if testRunId x = rid
                then (write_fields fs x)\<lparr>run_status := n, updatedAt := now\<rparr> else x))"
    show "\<not> terminal (run_status x)"
    proof (cases "testRunId x = rid")
      case True
      with x r assms(2) have "x = r"
        using get_run_Some unique_ids_same by metis
      with True a r t show ?thesis by auto
    next
      case False
      with a show ?thesis by simp
    qed
  qed
  with assms(3) show ?thesis by (simp add: single_flight_def)
qed

lemma create_unique_ids:
  assumes "create st r = Inr st'" and "unique_ids st"
  shows "unique_ids st'"
  using assms
  by (auto simp: create_def unique_ids_def get_run_None split: if_splits)

lemma create_single_flight:
  assumes "create st r = Inr st'"
  shows "single_flight st'"
  using assms
  by (auto simp: create_def single_flight_def listActive_def split: if_splits)

lemma or_unchanged_ok:
  assumes "store_ok st"
  shows "store_ok (or_unchanged st (updateStatus st rid e n fs now))"
  using assms updateStatus_unique_ids updateStatus_single_flight
  by (auto simp: or_unchanged_def store_ok_def split: sum.splits)

lemma pick_up_ok: "store_ok st \<Longrightarrow> store_ok (pick_up st m now)"
  by (auto simp: pick_up_def or_unchanged_ok split: option.splits)

lemma replicate_files_ok: "store_ok st \<Longrightarrow> store_ok (replicate_files st m outcome now)"
  by (auto simp: replicate_files_def or_unchanged_ok split: replication.splits)

lemma process_message_ok: "store_ok st \<Longrightarrow> store_ok (process_message st m outcome now)"
  using updateStatus_unique_ids updateStatus_single_flight
  by (auto simp: process_message_def store_ok_def intro!: replicate_files_ok [unfolded store_ok_def, THEN conjunct1]
      replicate_files_ok [unfolded store_ok_def, THEN conjunct2] split: option.splits sum.splits)

lemma step_ok:
  assumes "step s s'" and "store_ok (store s)"
  shows "store_ok (store s')"
  using assms
proof (cases rule: step.cases)
  case (submitted testSetId matching rid)
  then show ?thesis
    using assms(2) create_unique_ids create_single_flight
    by (auto simp: submit_def store_ok_def Let_def split: option.splits if_splits sum.splits)
next
  case (completed_trivially rid st)
  then show ?thesis
    using assms(2) updateStatus_unique_ids updateStatus_single_flight
    by (auto simp: complete_trivially_def store_ok_def split: option.splits if_splits)
next
  case (finalized rid outcome baseline test err st)
  then show ?thesis
    using assms(2) updateStatus_unique_ids updateStatus_single_flight
    by (auto simp: finalize_def store_ok_def split: if_splits)
next
  case (failed rid expected err st)
  then show ?thesis
    using assms(2) updateStatus_unique_ids updateStatus_single_flight
    by (auto simp: mark_failed_def store_ok_def split: if_splits)
qed (auto simp: pick_up_ok replicate_files_ok)

lemma steps_ok:
  assumes "step\<^sup>*\<^sup>* s s'" and "store_ok (store s)"
  shows "store_ok (store s')"
  using assms by (induction rule: rtranclp_induct) (auto intro: step_ok)

lemma initial_ok: "initial s \<Longrightarrow> store_ok (store s)"
  by (simp add: initial_def store_ok_def unique_ids_def single_flight_def listActive_def)

text \<open>
  Claim C3. At every instant of every execution at most one run record of the store
  holds a non-terminal status (QUEUED, PROCESSING or RUNNING): the invariant holds in
  every state reached from the empty store, each step of the system preserves it, and
  so do the two store operations that create or update a run, \<^verbatim>\<open>create\<close> and
  \<^verbatim>\<open>updateStatus\<close>, on a store keyed by run id.
\<close>

theorem single_flight_invariant:
  "(initial s \<and> step\<^sup>*\<^sup>* s s' \<longrightarrow> single_flight (store s'))
   \<and> (unique_ids (store s) \<and> single_flight (store s) \<and> step s s' \<longrightarrow> single_flight (store s'))
   \<and> (create st r = Inr st' \<longrightarrow> single_flight st')
   \<and> (unique_ids st \<and> single_flight st \<and> updateStatus st rid e n fs now = Inr st'
        \<longrightarrow> single_flight st')"
  using steps_ok [of s s'] initial_ok [of s] step_ok [of s s'] create_single_flight [of st r st']
    updateStatus_single_flight [of st rid e n fs now st']
  by (auto simp: store_ok_def)

text \<open>Scenario A, step by step: submit, pick up, replicate, finalize.\<close>

lemmas run_eval = demo_system_def demo_message_def demo_run_def demo_at_def demo_done_def
  three_files_def submit_def create_def canAdmit_def
  listActive_def get_run_def updateStatus_def pick_up_def replicate_files_def
  process_message_def finalize_def mark_failed_def or_unchanged_def write_fields_def
  complete_trivially_def
  no_fields_def new_run_id_def terminal_def status_of_def show_nat_digit Let_def

lemma demo_submit:
  "submit demo_system ''ts-1'' three_files = Inr (''invoices-0'', demo_at (demo_run QUEUED 0) 1)"
  by (simp add: run_eval)

lemma demo_pick_up:
  "pick_up [demo_run QUEUED t0] demo_message t = [demo_run PROCESSING t]"
  by (simp add: run_eval)

lemma demo_replicate:
  "replicate_files [demo_run PROCESSING t0] demo_message Copied t = [demo_run RUNNING t]"
  by (simp add: run_eval)

lemma demo_finalize:
  "finalize [demo_run RUNNING t0] ''invoices-0'' COMPLETED (cost_doc (Num (Fin 8)))
     (cost_doc (Num (Fin 10))) None t = Inr [demo_done t]"
  by (simp add: run_eval)

lemma demo_steps:
  "step demo_system (demo_at (demo_run QUEUED 0) 1)"
  "step (demo_at (demo_run QUEUED 0) 1) (demo_at (demo_run PROCESSING 1) 2)"
  "step (demo_at (demo_run PROCESSING 1) 2) (demo_at (demo_run RUNNING 2) 3)"
  "step (demo_at (demo_run RUNNING 2) 3) (demo_at (demo_done 3) 4)"
proof -
  show "step demo_system (demo_at (demo_run QUEUED 0) 1)"
    using demo_submit by (rule step.submitted)
  have q: "demo_message \<in> set (queue (demo_at r t))" for r t
    by (simp add: demo_at_def)
  show "step (demo_at (demo_run QUEUED 0) 1) (demo_at (demo_run PROCESSING 1) 2)"
    using step.picked_up [OF q, of "demo_run QUEUED 0" 1]
    by (simp add: demo_at_def demo_system_def demo_pick_up eval_nat_numeral)
  show "step (demo_at (demo_run PROCESSING 1) 2) (demo_at (demo_run RUNNING 2) 3)"
    using step.replicated [OF q, of "demo_run PROCESSING 1" 2 Copied]
    by (simp add: demo_at_def demo_system_def demo_replicate eval_nat_numeral)
  show "step (demo_at (demo_run RUNNING 2) 3) (demo_at (demo_done 3) 4)"
    using step.finalized [of "demo_at (demo_run RUNNING 2) 3" "''invoices-0''" COMPLETED
        "cost_doc (Num (Fin 8))" "cost_doc (Num (Fin 10))" None "[demo_done 3]"]
    by (simp add: demo_at_def demo_system_def demo_finalize eval_nat_numeral)
qed

lemma demo_execution: "step\<^sup>*\<^sup>* demo_system (demo_at (demo_done 3) 4)"
  using demo_steps by (meson rtranclp.rtrancl_into_rtrancl rtranclp.rtrancl_refl)

lemma demo_second_submit:
  "submit (demo_at (demo_done 3) 4) ''ts-1'' three_files = Inr (''invoices-4'', demo_again)"
  by (simp add: run_eval demo_again_def second_run_def)

theorem single_flight_invariant_witness:
  "single_flight (store (demo_at (demo_done 3) 4)) \<and> single_flight (store (demo_at (demo_run QUEUED 0) 1))
   \<and> listActive (store (demo_at (demo_run QUEUED 0) 1)) = [demo_run QUEUED 0]
   \<and> single_flight (store demo_again)
   \<and> store demo_again = [demo_done 3, second_run]
   \<and> listActive (store demo_again) = [second_run]"
proof -
  have i: "initial demo_system" by (simp add: initial_def demo_system_def)
  have "step\<^sup>*\<^sup>* demo_system (demo_at (demo_run QUEUED 0) 1)" using demo_steps(1) by blast
  moreover have "step (demo_at (demo_done 3) 4) demo_again"
    using demo_second_submit by (rule step.submitted)
  with demo_execution have "step\<^sup>*\<^sup>* demo_system demo_again"
    by (rule rtranclp.rtrancl_into_rtrancl)
  ultimately show ?thesis
    using single_flight_invariant [of demo_system "demo_at (demo_done 3) 4"] i demo_execution
      single_flight_invariant [of demo_system "demo_at (demo_run QUEUED 0) 1"]
      single_flight_invariant [of demo_system demo_again]
    by (simp add: demo_at_def demo_again_def second_run_def demo_done_def listActive_def
        demo_run_def terminal_def)
qed

lemma status_of_update:
  assumes "updateStatus st rid e n fs now = Inr st'"
  shows "status_of st rid = Some e"
    and "status_of st' x = (if x = rid then Some n else status_of st x)"
proof -
  from assms obtain r :: test_run where r: "get_run st rid = Some r" "run_status r = e"
    and st': "st' = map (\<lambda>x. if testRunId x = rid
                          then (write_fields fs x)\<lparr>run_status := n, updatedAt := now\<rparr> else x) st"
    by (rule updateStatus_cases)
  show "status_of st rid = Some e"
    using r by (simp add: status_of_def)
  have ids: "\<And>y. testRunId (if testRunId y = rid
                          then (write_fields fs y)\<lparr>run_status := n, updatedAt := now\<rparr> else y)
             = testRunId y"
    by simp
  have g: "get_run st' x = map_option (\<lambda>y. if testRunId y = rid
                          then (write_fields fs y)\<lparr>run_status := n, updatedAt := now\<rparr> else y)
                          (get_run st x)"
    unfolding st' get_run_def by (rule find_id_map) (rule ids)
  show "status_of st' x = (if x = rid then Some n else status_of st x)"
  proof (cases "get_run st x")
    case None
    with g r show ?thesis by (auto simp: status_of_def)
  next
    case (Some y)
    then have "testRunId y = x" using get_run_Some by blast
    with g Some show ?thesis by (auto simp: status_of_def)
  qed
qed

lemma update_moves:
  assumes "updateStatus st rid e n fs now = Inr st'" and "allowed e n"
    and "status_of st x = Some a"
  shows "\<exists>b. status_of st' x = Some b \<and> allowed a b"
  using status_of_update [OF assms(1)] assms(2,3)
  by (auto simp: allowed_def)

lemma or_unchanged_moves:
  assumes "allowed e n" and "status_of st x = Some a"
  shows "\<exists>b. status_of (or_unchanged st (updateStatus st rid e n fs now)) x = Some b \<and> allowed a b"
proof (cases "updateStatus st rid e n fs now")
  case (Inl err)
  with assms(2) show ?thesis by (simp add: or_unchanged_def allowed_def)
next
  case (Inr st')
  with update_moves [OF Inr assms] show ?thesis by (simp add: or_unchanged_def)
qed

lemma allowed_facts [simp]:
  "allowed a a" "allowed QUEUED PROCESSING" "allowed PROCESSING RUNNING"
  "allowed PROCESSING FAILED" "allowed RUNNING COMPLETED" "allowed RUNNING FAILED"
  by (simp_all add: allowed_def terminal_def)

lemma pick_up_moves:
  assumes "status_of st x = Some a"
  shows "\<exists>b. status_of (pick_up st m now) x = Some b \<and> allowed a b"
  using assms or_unchanged_moves [of QUEUED PROCESSING st x a]
  by (auto simp: pick_up_def split: option.splits)

lemma replicate_files_moves:
  assumes "status_of st x = Some a"
  shows "\<exists>b. status_of (replicate_files st m outcome now) x = Some b \<and> allowed a b"
  using assms or_unchanged_moves [of PROCESSING FAILED st x a]
    or_unchanged_moves [of PROCESSING RUNNING st x a]
  by (auto simp: replicate_files_def split: replication.splits)

lemma find_append_first:
  "find P xs = Some y \<Longrightarrow> find P (xs @ ys) = Some y"
  by (induction xs) auto

lemma create_moves:
  assumes "create st r = Inr st'" and "status_of st x = Some a"
  shows "status_of st' x = Some a"
  using assms
  by (auto simp: create_def status_of_def get_run_def find_append_first split: if_splits)

lemma finalize_moves:
  assumes "finalize st rid outcome baseline test err now = Inr st'" and "status_of st x = Some a"
  shows "\<exists>b. status_of st' x = Some b \<and> allowed a b"
proof -
  from assms(1) have t: "terminal outcome"
    and u: "updateStatus st rid RUNNING outcome
             \<lparr>set_errorMessage = (if outcome = FAILED then err else None),
              set_baseline = Some baseline, set_test = Some test,
              set_completedAt = Some now\<rparr> now = Inr st'"
    by (auto simp: finalize_def split: if_splits)
  from t have "allowed RUNNING outcome" by (auto simp: terminal_def)
  with update_moves [OF u _ assms(2)] show ?thesis by simp
qed

lemma mark_failed_moves:
  assumes "mark_failed st rid expected err now = Inr st'" and "status_of st x = Some a"
  shows "\<exists>b. status_of st' x = Some b \<and> allowed a b"
proof -
  from assms(1) have t: "\<not> terminal expected"
    and u: "updateStatus st rid expected FAILED
             (no_fields\<lparr>set_errorMessage := Some err, set_completedAt := Some now\<rparr>) now = Inr st'"
    by (auto simp: mark_failed_def split: if_splits)
  from t have "allowed expected FAILED" by (simp add: allowed_def)
  with update_moves [OF u _ assms(2)] show ?thesis by simp
qed

lemma complete_trivially_moves:
  assumes "complete_trivially st rid now = Inr st'" and "status_of st x = Some a"
  shows "\<exists>b. status_of st' x = Some b
           \<and> (allowed a b \<or> (a = QUEUED \<and> b = COMPLETED \<and> without_files st x))"
proof -
  from assms(1) obtain r where r: "get_run st rid = Some r" "filesCount r = 0"
    and u: "updateStatus st rid QUEUED COMPLETED
              (no_fields\<lparr>set_completedAt := Some now\<rparr>) now = Inr st'"
    by (auto simp: complete_trivially_def split: option.splits if_splits)
  from status_of_update [OF u] have q: "status_of st rid = Some QUEUED"
    and n: "status_of st' x = (if x = rid then Some COMPLETED else status_of st x)"
    by simp_all
  show ?thesis
  proof (cases "x = rid")
    case True
    with q assms(2) have "a = QUEUED" by simp
    moreover have "without_files st x" using True r by (simp add: without_files_def)
    ultimately show ?thesis using n True by simp
  next
    case False
    with n assms(2) show ?thesis by simp
  qed
qed

lemma allowed_rank: "allowed a b \<Longrightarrow> rank a \<le> rank b \<and> (terminal a \<longrightarrow> b = a)"
  by (cases a; cases b) (auto simp: allowed_def terminal_def)

lemma step_moves:
  assumes "step s s'" and "status_of (store s) x = Some a"
  shows "\<exists>b. status_of (store s') x = Some b
           \<and> (allowed a b \<or> (a = QUEUED \<and> b = COMPLETED \<and> without_files (store s) x))"
  using assms
proof (cases rule: step.cases)
  case (submitted testSetId matching rid)
  then have "\<exists>st r. create (store s) r = Inr st \<and> store s' = st"
    by (auto simp: submit_def Let_def split: option.splits if_splits sum.splits)
  with create_moves assms(2) show ?thesis by fastforce
next
  case (completed_trivially rid st)
  with complete_trivially_moves [OF _ assms(2)] show ?thesis by simp
next
  case (picked_up m)
  with pick_up_moves [OF assms(2), of m "clock s"] show ?thesis by auto
next
  case (replicated m outcome)
  with replicate_files_moves [OF assms(2), of m outcome "clock s"] show ?thesis by auto
next
  case (acknowledged m)
  with assms(2) show ?thesis by simp
next
  case (finalized rid outcome baseline test err st)
  with finalize_moves [OF _ assms(2), of rid outcome baseline test err "clock s" st]
  show ?thesis by auto
next
  case (failed rid expected err st)
  with mark_failed_moves [OF _ assms(2), of rid expected err "clock s" st]
  show ?thesis by auto
qed

lemma steps_rank:
  assumes "step\<^sup>*\<^sup>* s s'" and "status_of (store s) x = Some a"
  shows "\<exists>b. status_of (store s') x = Some b \<and> rank a \<le> rank b \<and> (terminal a \<longrightarrow> b = a)"
  using assms
proof (induction rule: rtranclp_induct)
  case base
  then show ?case by simp
next
  case (step y z)
  then obtain b where b: "status_of (store y) x = Some b" "rank a \<le> rank b" "terminal a \<longrightarrow> b = a"
    by auto
  from step_moves [OF step(2) b(1)] obtain c where
    c: "status_of (store z) x = Some c"
       "allowed b c \<or> (b = QUEUED \<and> c = COMPLETED \<and> without_files (store y) x)" by auto
  from c(2) have "rank b \<le> rank c \<and> (terminal b \<longrightarrow> c = b)"
    using allowed_rank [of b c] by (auto simp: terminal_def)
  with c(1) b show ?case by auto
qed

text \<open>
  Claim C4, as the specification has it. The statuses a run takes over time never go
  backwards: one step of the system leaves the status of a run as it is, moves it one
  place forward along QUEUED, PROCESSING, RUNNING, {COMPLETED, FAILED}, moves it from a
  non-terminal state to FAILED, or, for a run without files, moves it from QUEUED
  straight to COMPLETED; along any execution the rank of the status never decreases,
  and a terminal status stays.
\<close>

theorem status_moves_forward:
  assumes "status_of (store s) rid = Some a"
  shows "(step s s' \<longrightarrow>
            (\<exists>b. status_of (store s') rid = Some b
               \<and> (allowed a b \<or> (a = QUEUED \<and> b = COMPLETED \<and> without_files (store s) rid))))
       \<and> (step\<^sup>*\<^sup>* s s' \<longrightarrow>
            (\<exists>b. status_of (store s') rid = Some b \<and> rank a \<le> rank b \<and> (terminal a \<longrightarrow> b = a)))"
  using assms step_moves [of s s' rid a] steps_rank [of s s' rid a] by blast

lemma demo_statuses:
  "status_of (store (demo_at (demo_run QUEUED 0) 1)) ''invoices-0'' = Some QUEUED"
  "status_of (store (demo_at (demo_run PROCESSING 1) 2)) ''invoices-0'' = Some PROCESSING"
  "status_of (store (demo_at (demo_done 3) 4)) ''invoices-0'' = Some COMPLETED"
  by (simp_all add: demo_at_def demo_run_def demo_done_def status_of_def get_run_def)

text \<open>The run without files: submitted, then complete.\<close>

lemma bare_submit:
  "submit demo_system ''ts-1'' no_files = Inr (''invoices-0'', demo_at (bare_run QUEUED 0) 1)"
  by (simp add: run_eval no_files_def bare_run_def)

lemma bare_complete:
  "complete_trivially [bare_run QUEUED t0] ''invoices-0'' t = Inr [bare_done t]"
  by (simp add: run_eval bare_run_def bare_done_def)

lemma bare_steps:
  "step demo_system (demo_at (bare_run QUEUED 0) 1)"
  "step (demo_at (bare_run QUEUED 0) 1) (demo_at (bare_done 1) 2)"
proof -
  show "step demo_system (demo_at (bare_run QUEUED 0) 1)"
    using bare_submit by (rule step.submitted)
  show "step (demo_at (bare_run QUEUED 0) 1) (demo_at (bare_done 1) 2)"
    using step.completed_trivially [of "demo_at (bare_run QUEUED 0) 1" "''invoices-0''"
        "[bare_done 1]"]
    by (simp add: demo_at_def demo_system_def bare_complete eval_nat_numeral)
qed

lemma bare_statuses:
  "status_of (store (demo_at (bare_run QUEUED 0) 1)) ''invoices-0'' = Some QUEUED"
  "status_of (store (demo_at (bare_done 1) 2)) ''invoices-0'' = Some COMPLETED"
  "without_files (store (demo_at (bare_run QUEUED 0) 1)) ''invoices-0''"
  by (simp_all add: demo_at_def demo_run_def bare_run_def bare_done_def status_of_def
      get_run_def without_files_def)

theorem status_moves_forward_witness:
  "allowed QUEUED PROCESSING \<and> rank QUEUED \<le> rank COMPLETED
   \<and> (\<exists>b. status_of (store (demo_at (demo_run PROCESSING 1) 2)) ''invoices-0'' = Some b
          \<and> allowed QUEUED b)
   \<and> (\<exists>b. status_of (store (demo_at (demo_done 3) 4)) ''invoices-0'' = Some b
          \<and> rank QUEUED \<le> rank b)
   \<and> (\<exists>b. status_of (store (demo_at (bare_done 1) 2)) ''invoices-0'' = Some b
          \<and> b = COMPLETED \<and> without_files (store (demo_at (bare_run QUEUED 0) 1)) ''invoices-0'')"
proof -
  have "step\<^sup>*\<^sup>* (demo_at (demo_run QUEUED 0) 1) (demo_at (demo_done 3) 4)"
    using demo_steps(2,3,4) by (meson rtranclp.rtrancl_into_rtrancl rtranclp.rtrancl_refl)
  with status_moves_forward [OF demo_statuses(1), of "demo_at (demo_run PROCESSING 1) 2"]
    status_moves_forward [OF demo_statuses(1), of "demo_at (demo_done 3) 4"]
    status_moves_forward [OF bare_statuses(1), of "demo_at (bare_done 1) 2"]
    demo_steps(2) bare_steps(2) demo_statuses bare_statuses
  show ?thesis by (auto simp: allowed_def terminal_def)
qed

text \<open>
  The claim as it was stated lets a run skip a state only towards FAILED. A test set
  whose pattern matches no file gives a run that is created QUEUED and moves straight
  to COMPLETED, over PROCESSING and RUNNING.
\<close>

theorem status_moves_forward_counterexample:
  "step demo_system (demo_at (bare_run QUEUED 0) 1)
   \<and> step (demo_at (bare_run QUEUED 0) 1) (demo_at (bare_done 1) 2)
   \<and> status_of (store (demo_at (bare_run QUEUED 0) 1)) ''invoices-0'' = Some QUEUED
   \<and> status_of (store (demo_at (bare_done 1) 2)) ''invoices-0'' = Some COMPLETED
   \<and> \<not> allowed QUEUED COMPLETED"
  using bare_steps bare_statuses by (simp add: allowed_def terminal_def)

lemma terminal_pick_up:
  assumes "get_run st (msg_testRunId m) = Some r" and "terminal (run_status r)"
  shows "pick_up st m now = st"
  using assms by (simp add: pick_up_def)

lemma terminal_process_message:
  assumes "get_run st (msg_testRunId m) = Some r" and "terminal (run_status r)"
  shows "process_message st m outcome now = st"
  using assms by (simp add: process_message_def)

lemma terminal_replicate_files:
  assumes "get_run st (msg_testRunId m) = Some r" and "terminal (run_status r)"
  shows "replicate_files st m outcome now = st"
  using assms
  by (auto simp: replicate_files_def updateStatus_def or_unchanged_def terminal_def
      split: replication.splits)

text \<open>
  Claim C8. Processing a QueueMessage whose run is already COMPLETED or FAILED leaves
  the store, and so the run record, unchanged; so does any number of redeliveries of
  the message, and so does each of the worker's two writes taken alone.
\<close>

theorem redelivery_after_terminal:
  assumes "get_run st (msg_testRunId m) = Some r" and "terminal (run_status r)"
  shows "process_message st m outcome now = st
       \<and> redeliver st m deliveries = st
       \<and> pick_up st m now = st \<and> replicate_files st m outcome now = st"
proof -
  have "redeliver st m deliveries = st"
    using assms by (induction deliveries) (auto simp: terminal_process_message)
  with assms show ?thesis
    by (simp add: terminal_process_message terminal_pick_up terminal_replicate_files)
qed

theorem redelivery_after_terminal_witness:
  "process_message [demo_done 3] demo_message Copied 7 = [demo_done 3]
   \<and> redeliver [demo_done 3] demo_message [(Copied, 7), (CopyFailed ''timeout'', 8), (Copied, 9)]
       = [demo_done 3]"
proof -
  have g: "get_run [demo_done 3] (msg_testRunId demo_message) = Some (demo_done 3)"
    by (simp add: get_run_def demo_done_def demo_run_def demo_message_def)
  have t: "terminal (run_status (demo_done 3))"
    by (simp add: demo_done_def demo_run_def terminal_def)
  from redelivery_after_terminal [OF g t] show ?thesis by simp
qed

section \<open>Token totals\<close>

lemma or_zero_count:
  "count_ok w \<Longrightarrow> or_zero w = Num (Fin (case w of Num (Fin x) \<Rightarrow> x | _ \<Rightarrow> 0))"
  by (auto simp: count_ok_def or_zero_def split: jsval.splits jsnum.splits)

lemma js_add_numbers: "js_add (Num a) (Num b) = Inr (Num (num_add a b))"
  by (simp add: js_add_def rbind_def)

lemma falsy_has_no_field:
  assumes "\<not> truthy v" and "k \<noteq> ''length''"
  shows "read_prop v k = Undefined"
  using assms by (cases v) (auto simp: read_prop_def)

lemma path_entry:
  assumes "read_prop u key = v" and "truthy u" and "truthy v"
  shows "path u key f = Inr (read_prop v f)"
  using assms by (cases u; cases v) (auto simp: path_def get_def rbind_def)

lemma add_entry_source:
  assumes "str_includes key ''bedrock''" and "truthy u" and "read_prop u key = v"
    and "counts_ok v" and "settled a" and "settled b" and "settled c"
  shows "add_entry u \<lparr>inputTokens = Num a, outputTokens = Num b, totalTokens = Num c\<rparr> key =
         Inr \<lparr>inputTokens = Num (num_add a (Fin (token_field v ''inputTokens''))),
              outputTokens = Num (num_add b (Fin (token_field v ''outputTokens''))),
              totalTokens = Num (num_add c (Fin (token_field v ''totalTokens'')))\<rparr>"
proof (cases "truthy v")
  case True
  with assms(1-4) show ?thesis
    by (simp add: add_entry_def path_entry rbind_def counts_ok_def or_zero_count
        js_add_numbers token_field_def)
next
  case False
  then have "token_field v ''inputTokens'' = 0" "token_field v ''outputTokens'' = 0"
    "token_field v ''totalTokens'' = 0"
    by (simp_all add: token_field_def falsy_has_no_field)
  with False assms show ?thesis by (simp add: add_entry_def num_add_zero)
qed

lemma add_entry_other:
  assumes "\<not> str_includes key ''bedrock''"
  shows "add_entry u tk key = Inr tk"
  using assms by (simp add: add_entry_def)

lemma fold_entries:
  assumes "truthy u"
    and "\<And>key entry. (key, entry) \<in> set es \<Longrightarrow> read_prop u key = entry"
    and "\<And>key entry. (key, entry) \<in> set es \<Longrightarrow> str_includes key ''bedrock'' \<Longrightarrow> counts_ok entry"
    and "settled a" and "settled b" and "settled c"
  shows "fold_result (add_entry u) (map fst es)
           \<lparr>inputTokens = Num a, outputTokens = Num b, totalTokens = Num c\<rparr> =
         Inr \<lparr>inputTokens = Num (foldl num_add a (map Fin (counts_of es ''inputTokens''))),
              outputTokens = Num (foldl num_add b (map Fin (counts_of es ''outputTokens''))),
              totalTokens = Num (foldl num_add c (map Fin (counts_of es ''totalTokens'')))\<rparr>"
  using assms(2-6)
proof (induction es arbitrary: a b c)
  case Nil
  then show ?case by (simp add: counts_of_def)
next
  case (Cons e es)
  obtain key entry where e: "e = (key, entry)" by (cases e)
  have r: "read_prop u key = entry" using Cons.prems(1) [of key entry] e by simp
  have ih: "fold_result (add_entry u) (map fst es)
           \<lparr>inputTokens = Num a', outputTokens = Num b', totalTokens = Num c'\<rparr> =
         Inr \<lparr>inputTokens = Num (foldl num_add a' (map Fin (counts_of es ''inputTokens''))),
              outputTokens = Num (foldl num_add b' (map Fin (counts_of es ''outputTokens''))),
              totalTokens = Num (foldl num_add c' (map Fin (counts_of es ''totalTokens'')))\<rparr>"
    if "settled a'" and "settled b'" and "settled c'" for a' b' c'
  proof (rule Cons.IH)
    fix k v assume "(k, v) \<in> set es"
    then show "read_prop u k = v" using Cons.prems(1) [of k v] by simp
  next
    fix k v assume "(k, v) \<in> set es" and "str_includes k ''bedrock''"
    then show "counts_ok v" using Cons.prems(2) [of k v] by simp
  qed (use that in simp_all)
  show ?case
  proof (cases "str_includes key ''bedrock''")
    case True
    then have "counts_ok entry" using Cons.prems(2) [of key entry] e by simp
    from add_entry_source [OF True assms(1) r this Cons.prems(3-5)] True e
    show ?thesis
      by (simp add: ih settled_num_add counts_of_def)
  next
    case False
    with add_entry_other [OF False] e Cons.prems(3-5)
    show ?thesis by (simp add: ih counts_of_def)
  qed
qed

lemma read_own_entry:
  assumes "distinct (map fst entries)" and "(key, entry) \<in> set entries"
  shows "read_prop (Obj entries) key = entry"
  using assms by (simp add: read_prop_def)

lemma settled_zero: "settled (Fin 0)"
  by (simp add: settled_def double_def to_double_def)

lemma aggregateTokens_object:
  assumes "distinct (map fst es)"
    and "\<forall>(key, entry) \<in> set es. str_includes key ''bedrock'' \<longrightarrow> counts_ok entry"
  shows "aggregateTokens (Obj es) = Inr (model_invocation_totals es)"
  using fold_entries [of "Obj es" es "Fin 0" "Fin 0" "Fin 0"] assms
  by (auto simp: aggregateTokens_def no_tokens_def model_invocation_totals_def field_total_def
      number_sum_def read_own_entry settled_zero)

lemma whole_is_double:
  assumes "whole x" and "x \<le> 2 ^ 53"
  shows "to_double x = Fin x"
proof -
  from assms(1) have f: "of_int \<lfloor>x\<rfloor> = x" and p: "0 \<le> x"
    unfolding whole_def by blast+
  from p have n: "0 \<le> \<lfloor>x\<rfloor>" by simp
  then have x: "of_nat (nat \<lfloor>x\<rfloor>) = x" using f by simp
  have "(of_int \<lfloor>x\<rfloor> :: rat) \<le> of_int (2 ^ 53)" unfolding f using assms(2) by simp
  then have "\<lfloor>x\<rfloor> \<le> 2 ^ 53" by (simp only: of_int_le_iff)
  with n have "nat \<lfloor>x\<rfloor> \<le> 2 ^ 53" by (simp add: nat_le_iff)
  from whole_double [OF this] show ?thesis unfolding x .
qed

lemma whole_add: "whole x \<Longrightarrow> whole y \<Longrightarrow> whole (x + y)"
proof -
  assume "whole x" and "whole y"
  then have f: "of_int \<lfloor>x\<rfloor> = x" "of_int \<lfloor>y\<rfloor> = y" and p: "0 \<le> x" "0 \<le> y"
    unfolding whole_def by blast+
  have "x + y = of_int \<lfloor>x\<rfloor> + of_int \<lfloor>y\<rfloor>" by (simp only: f)
  then have "x + y = of_int (\<lfloor>x\<rfloor> + \<lfloor>y\<rfloor>)" by (simp only: of_int_add)
  then have "of_int \<lfloor>x + y\<rfloor> = x + y" by (metis floor_of_int)
  moreover have "0 \<le> x + y" using p by simp
  ultimately show ?thesis unfolding whole_def by blast
qed

lemma sum_whole:
  assumes "\<forall>x \<in> set xs. whole x" and "whole a" and "a + sum_list xs \<le> 2 ^ 53"
  shows "foldl num_add (Fin a) (map Fin xs) = Fin (a + sum_list xs)"
  using assms
proof (induction xs arbitrary: a)
  case Nil
  then show ?case by simp
next
  case (Cons x xs)
  then have x: "whole x" and xs: "\<forall>y \<in> set xs. whole y" by simp_all
  have "0 \<le> sum_list xs" using xs by (intro sum_list_nonneg) (simp add: whole_def)
  with Cons.prems(3) have "a + x \<le> 2 ^ 53" by simp
  with whole_add [OF Cons.prems(2) x] have "num_add (Fin a) (Fin x) = Fin (a + x)"
    by (simp add: whole_is_double)
  moreover have "foldl num_add (Fin (a + x)) (map Fin xs) = Fin (a + x + sum_list xs)"
    using xs whole_add [OF Cons.prems(2) x] Cons.prems(3)
    by (intro Cons.IH) (simp_all add: add.assoc)
  ultimately show ?case by (simp add: add.assoc)
qed

lemma field_total_whole:
  assumes "whole_counts entries k"
  shows "field_total entries k = Num (Fin (sum_list (counts_of entries k)))"
  using assms sum_whole [of "counts_of entries k" 0]
  by (simp add: whole_counts_def field_total_def number_sum_def whole_def)

text \<open>
  Beyond \<^verbatim>\<open>2^53\<close> a sum of whole numbers need not be exact: adding 1 to \<^verbatim>\<open>2^53\<close> leaves it
  as it is.
\<close>

lemma sum_beyond_whole: "number_sum [2 ^ 53, 1] = Fin (2 ^ 53)"
  by (simp add: number_sum_def double_eval)

text \<open>
  Claim C6, as the code has it. Take a usage document, an object with distinct keys in
  which the token counts of the model-invocation entries are numbers or absent. The
  token totals are the three sums of \<^verbatim>\<open>inputTokens\<close>, \<^verbatim>\<open>outputTokens\<close> and \<^verbatim>\<open>totalTokens\<close>
  over exactly the entries whose key contains \<^verbatim>\<open>bedrock\<close>, an absent count being 0, added
  in double arithmetic in the order of the entries; the entries under every other key
  contribute nothing, so that dropping them leaves the aggregate as it is; an absent
  usage document gives three zeros. Where the counts of a field are whole numbers with
  an exact sum of at most \<^verbatim>\<open>2^53\<close>, the total is that exact sum. Each side of a run has its
  own aggregate: the Test Input Tokens and Baseline Input Tokens cells show the
  \<^verbatim>\<open>inputTokens\<close> total of their side, and the Total Token Change is computed from the two
  \<^verbatim>\<open>totalTokens\<close> totals.
\<close>

theorem aggregateTokens_sums:
  assumes "distinct (map fst entries)"
    and "\<forall>(key, entry) \<in> set entries. str_includes key ''bedrock'' \<longrightarrow> counts_ok entry"
  shows "aggregateTokens (Obj entries) = Inr (model_invocation_totals entries)
       \<and> aggregateTokens (Obj entries) =
           aggregateTokens (Obj (filter (\<lambda>(key, entry). str_includes key ''bedrock'') entries))
       \<and> aggregateTokens Undefined = Inr no_tokens \<and> aggregateTokens Null = Inr no_tokens
       \<and> (whole_counts entries k \<longrightarrow>
            field_total entries k = Num (Fin (sum_list (counts_of entries k))))
       \<and> (doc testRun side = Inr d \<and> oget d ''usage'' = Obj entries \<longrightarrow>
            side_tokens testRun side = Inr (model_invocation_totals entries))
       \<and> (doc testRun ''test'' = Inr d \<and> oget d ''usage'' = Obj entries \<longrightarrow>
            test_input_tokens_cell testRun =
              Inr (Localized (field_total entries ''inputTokens'')))
       \<and> (doc testRun ''baseline'' = Inr d \<and> oget d ''usage'' = Obj entries \<longrightarrow>
            baseline_input_tokens_cell testRun =
              Inr (Localized (field_total entries ''inputTokens'')))
       \<and> (side_tokens testRun ''test'' = Inr tt \<and> side_tokens testRun ''baseline'' = Inr bt \<longrightarrow>
            total_token_change_cell testRun =
              rbind (calculateChange (totalTokens tt) (totalTokens bt)) (\<lambda>s. Inr (Text s)))"
proof -
  let ?src = "filter (\<lambda>(key, entry). str_includes key ''bedrock'') entries"
  have main: "aggregateTokens (Obj entries) = Inr (model_invocation_totals entries)"
    using assms by (rule aggregateTokens_object)
  have "distinct (map fst ?src)"
    using assms(1) by (simp add: distinct_map_filter)
  moreover have "\<forall>(key, entry) \<in> set ?src. str_includes key ''bedrock'' \<longrightarrow> counts_ok entry"
    using assms(2) by auto
  ultimately have "aggregateTokens (Obj ?src) = Inr (model_invocation_totals ?src)"
    by (rule aggregateTokens_object)
  moreover have "model_invocation_totals ?src = model_invocation_totals entries"
    by (simp add: model_invocation_totals_def field_total_def counts_of_def)
  ultimately have drop: "aggregateTokens (Obj entries) = aggregateTokens (Obj ?src)"
    using main by simp
  have absent: "aggregateTokens Undefined = Inr no_tokens" "aggregateTokens Null = Inr no_tokens"
    by (simp_all add: aggregateTokens_def)
  have side: "side_tokens testRun sd = Inr (model_invocation_totals entries)"
    if "doc testRun sd = Inr d" and "oget d ''usage'' = Obj entries" for sd
    using that main by (simp add: side_tokens_def rbind_def)
  have cells: "test_input_tokens_cell testRun = Inr (Localized (field_total entries ''inputTokens''))"
    if "doc testRun ''test'' = Inr d" and "oget d ''usage'' = Obj entries"
    using side [OF that] by (simp add: test_input_tokens_cell_def rbind_def model_invocation_totals_def)
  have cellb: "baseline_input_tokens_cell testRun = Inr (Localized (field_total entries ''inputTokens''))"
    if "doc testRun ''baseline'' = Inr d" and "oget d ''usage'' = Obj entries"
    using side [OF that]
    by (simp add: baseline_input_tokens_cell_def rbind_def model_invocation_totals_def)
  have change: "total_token_change_cell testRun =
      rbind (calculateChange (totalTokens tt) (totalTokens bt)) (\<lambda>s. Inr (Text s))"
    if "side_tokens testRun ''test'' = Inr tt" and "side_tokens testRun ''baseline'' = Inr bt"
    using that by (simp add: total_token_change_cell_def rbind_def)
  from main drop absent field_total_whole [of entries k] side [of side] cells cellb change
  show ?thesis by blast
qed

text \<open>
  The run with every field: two model-invocation entries and one of another source on
  the test side, one entry on the baseline side.
\<close>

lemma demo_counts:
  "counts_of [(''bedrock/nova-pro'', Obj [(''inputTokens'', Num (Fin 100)), (''outputTokens'', Num (Fin 20)),
                                  (''totalTokens'', Num (Fin 120))]),
      (''textract/analyze_document'', Obj [(''pages'', Num (Fin 3)), (''totalTokens'', Num (Fin 999))]),
      (''bedrock/claude'', Obj [(''inputTokens'', Num (Fin 50)), (''totalTokens'', Num (Fin 50))])] k
   = [if k = ''inputTokens'' then 100 else if k = ''outputTokens'' then 20
      else if k = ''totalTokens'' then 120 else 0,
      if k = ''inputTokens'' then 50 else if k = ''totalTokens'' then 50 else 0]"
  by (simp add: counts_of_def token_field_def read_prop_def)

theorem aggregateTokens_sums_witness:
  "aggregateTokens demo_usage =
     Inr \<lparr>inputTokens = Num (Fin 150), outputTokens = Num (Fin 20), totalTokens = Num (Fin 170)\<rparr>
   \<and> test_input_tokens_cell full_run = Inr (Localized (Num (Fin 150)))"
proof -
  let ?es = "[(''bedrock/nova-pro'', Obj [(''inputTokens'', Num (Fin 100)), (''outputTokens'', Num (Fin 20)),
                                  (''totalTokens'', Num (Fin 120))]),
      (''textract/analyze_document'', Obj [(''pages'', Num (Fin 3)), (''totalTokens'', Num (Fin 999))]),
      (''bedrock/claude'', Obj [(''inputTokens'', Num (Fin 50)), (''totalTokens'', Num (Fin 50))])]"
  have d: "distinct (map fst ?es)" by simp
  have c: "\<forall>(key, entry) \<in> set ?es. str_includes key ''bedrock'' \<longrightarrow> counts_ok entry"
    by (simp add: counts_ok_def count_ok_def read_prop_def)
  have w: "whole_counts ?es ''inputTokens''" "whole_counts ?es ''outputTokens''"
    "whole_counts ?es ''totalTokens''"
    by (simp_all add: whole_counts_def demo_counts whole_def)
  have t: "doc full_run ''test'' = Inr (Obj [(''accuracy'', Obj [(''accuracy'', Num (Fin (7 / 8))), (''precision'', Num (Fin (3 / 4))),
                                          (''recall'', Num (Fin (1 / 2))), (''f1_score'', Num (Fin (5 / 8)))]),
                     (''confidence'', Obj [(''average_confidence'', Num (Fin (13 / 16)))]),
                     (''cost'', Obj [(''total_cost'', Num (Fin 10))]),
                     (''usage'', demo_usage)])"
    by (simp add: full_run_def doc_def get_def rbind_def read_prop_def parsed_def)
  have u: "oget (Obj [(''accuracy'', Obj [(''accuracy'', Num (Fin (7 / 8))), (''precision'', Num (Fin (3 / 4))),
                                          (''recall'', Num (Fin (1 / 2))), (''f1_score'', Num (Fin (5 / 8)))]),
                     (''confidence'', Obj [(''average_confidence'', Num (Fin (13 / 16)))]),
                     (''cost'', Obj [(''total_cost'', Num (Fin 10))]),
                     (''usage'', demo_usage)]) ''usage'' = Obj ?es"
    by (simp add: oget_def read_prop_def demo_usage_def)
  from aggregateTokens_sums [OF d c, of "''inputTokens''"]
       aggregateTokens_sums [OF d c, of "''outputTokens''"]
       aggregateTokens_sums [OF d c, of "''totalTokens''" full_run] w t u
  show ?thesis
    by (simp add: demo_usage_def model_invocation_totals_def demo_counts)
qed

text \<open>
  The claim as it was stated lets a count hold any value. With a count given as text
  the loop does not add, it appends: 100 and the text \<^verbatim>\<open>50\<close> give the text \<^verbatim>\<open>10050\<close>,
  which the Test Input Tokens cell shows, where the sum is 150.
\<close>

theorem aggregateTokens_counterexample:
  "aggregateTokens (Obj [(''bedrock/nova-pro'', Obj [(''inputTokens'', Num (Fin 100))]),
                         (''bedrock/claude'', Obj [(''inputTokens'', Str ''50'')])])
     = Inr \<lparr>inputTokens = Str ''10050'', outputTokens = Num (Fin 0), totalTokens = Num (Fin 0)\<rparr>
   \<and> test_input_tokens_cell
        (run_of ''COMPLETE''
           (Obj [(''usage'', Obj [(''bedrock/nova-pro'', Obj [(''inputTokens'', Num (Fin 100))]),
                                   (''bedrock/claude'', Obj [(''inputTokens'', Str ''50'')])])])
           (Obj []))
     = Inr (Localized (Str ''10050''))
   \<and> Str ''10050'' \<noteq> Num (Fin (100 + 50))"
proof -
  have a: "aggregateTokens (Obj [(''bedrock/nova-pro'', Obj [(''inputTokens'', Num (Fin 100))]),
                         (''bedrock/claude'', Obj [(''inputTokens'', Str ''50'')])])
     = Inr \<lparr>inputTokens = Str ''10050'', outputTokens = Num (Fin 0), totalTokens = Num (Fin 0)\<rparr>"
    by (simp add: aggregateTokens_def add_entry_def no_tokens_def or_zero_def js_add_def
        path_def get_def read_prop_def rbind_def text_eval double_eval digits_eval)
  then show ?thesis
    by (simp add: test_input_tokens_cell_def side_tokens_def doc_def get_def read_prop_def
        parsed_def run_of_def oget_def rbind_def)
qed

section \<open>Extraction never throws on well-typed runs\<close>

lemma leaf_cases:
  assumes "leaf_ok v"
  obtains n where "v = Num n" | "nullish v"
  using assms by (cases v) (auto simp: leaf_ok_def)

lemma percent_number: "\<exists>c. percent (Num n) = Inr c"
  by (simp add: percent_def js_mul_def to_number_def rbind_def)

lemma present_percent_total:
  assumes "leaf_ok (opath d a b)"
  shows "\<exists>c. present_percent d a b = Inr c"
  using assms
proof (cases rule: leaf_cases)
  case (1 n)
  then show ?thesis
    using percent_number [of n] by (auto simp: present_percent_def path_of_opath rbind_def)
next
  case 2
  then show ?thesis by (simp add: present_percent_missing)
qed

lemma truthy_percent_total:
  assumes "leaf_ok (opath d a b)"
  shows "\<exists>c. truthy_percent d a b = Inr c"
  using assms
proof (cases rule: leaf_cases)
  case (1 n)
  then show ?thesis
    using percent_number [of n] by (auto simp: truthy_percent_def path_of_opath rbind_def)
next
  case 2
  then have "\<not> truthy (opath d a b)" by (cases "opath d a b") auto
  then show ?thesis by (simp add: truthy_percent_falsy)
qed

lemma dollars_total:
  assumes "leaf_ok (opath d ''cost'' ''total_cost'')"
  shows "\<exists>c. dollars d = Inr c"
  using assms
proof (cases rule: leaf_cases)
  case (1 n)
  then show ?thesis
    by (auto simp: dollars_def path_of_opath rbind_def call_toFixed_def)
next
  case 2
  then have "\<not> truthy (opath d ''cost'' ''total_cost'')"
    by (cases "opath d ''cost'' ''total_cost''") auto
  then show ?thesis by (simp add: dollars_falsy)
qed

lemma truthy_leaf:
  assumes "leaf_ok v" and "truthy v"
  obtains n where "v = Num n"
  using assms by (cases v) (auto simp: leaf_ok_def)

lemma cost_change_total:
  assumes "leaf_ok (opath test ''cost'' ''total_cost'')"
    and "leaf_ok (opath baseline ''cost'' ''total_cost'')"
  shows "\<exists>c. cost_change test baseline = Inr c"
proof (cases "truthy (opath test ''cost'' ''total_cost'') \<and> truthy (opath baseline ''cost'' ''total_cost'')")
  case True
  from truthy_leaf [OF assms(1)] True obtain t where t: "opath test ''cost'' ''total_cost'' = Num t"
    by blast
  from truthy_leaf [OF assms(2)] True obtain b where b: "opath baseline ''cost'' ''total_cost'' = Num b"
    by blast
  from t b True show ?thesis
    by (simp add: cost_change_def path_of_opath rbind_def relative_change_numbers)
next
  case False
  then show ?thesis by (auto simp: cost_change_missing)
qed

lemma calculateChange_total: "\<exists>s. calculateChange (Num t) (Num b) = Inr s"
  by (simp add: calculateChange_def relative_change_numbers rbind_def Let_def)

lemma read_own:
  assumes "key \<in> set (map fst (own_entries u))"
  shows "(key, read_prop u key) \<in> set (own_entries u)"
proof -
  from assms have "key \<in> fst ` set (own_entries u)" by simp
  then have "map_of (own_entries u) key \<noteq> None" by (simp add: map_of_eq_None_iff)
  then obtain x where "map_of (own_entries u) key = Some x" by blast
  then show ?thesis
    by (simp add: read_prop_def map_of_SomeD)
qed

lemma or_zero_leaf: "leaf_ok w \<Longrightarrow> \<exists>n. or_zero w = Num n"
  by (cases w) (auto simp: or_zero_def leaf_ok_def)

lemma path_truthy:
  assumes "truthy u" and "truthy (read_prop u key)"
  shows "path u key f = Inr (read_prop (read_prop u key) f)"
  using assms by (cases u; cases "read_prop u key") (auto simp: path_def get_def rbind_def)

lemma add_entry_total:
  assumes "usage_ok u" and "truthy u" and "key \<in> set (map fst (own_entries u))" and "counted tk"
  shows "\<exists>tk'. add_entry u tk key = Inr tk' \<and> counted tk'"
proof (cases "str_includes key ''bedrock'' \<and> truthy (read_prop u key)")
  case True
  from read_own [OF assms(3)] True assms(1)
  have l: "leaf_ok (read_prop (read_prop u key) ''inputTokens'')"
    "leaf_ok (read_prop (read_prop u key) ''outputTokens'')"
    "leaf_ok (read_prop (read_prop u key) ''totalTokens'')"
    by (auto simp: usage_ok_def)
  from or_zero_leaf [OF l(1)] obtain i where
    zi: "or_zero (read_prop (read_prop u key) ''inputTokens'') = Num i" by blast
  from or_zero_leaf [OF l(2)] obtain out where
    zo: "or_zero (read_prop (read_prop u key) ''outputTokens'') = Num out" by blast
  from or_zero_leaf [OF l(3)] obtain t where
    zt: "or_zero (read_prop (read_prop u key) ''totalTokens'') = Num t" by blast
  from assms(4) obtain a b c where
    tk: "tk = \<lparr>inputTokens = Num a, outputTokens = Num b, totalTokens = Num c\<rparr>"
    by (auto simp: counted_def)
  from True assms(2) show ?thesis
    by (simp add: add_entry_def path_truthy rbind_def zi zo zt tk js_add_numbers counted_def)
next
  case False
  with assms(4) show ?thesis by (auto simp: add_entry_def)
qed

lemma fold_total:
  assumes "usage_ok u" and "truthy u" and "set ks \<subseteq> set (map fst (own_entries u))" and "counted tk"
  shows "\<exists>tk'. fold_result (add_entry u) ks tk = Inr tk' \<and> counted tk'"
  using assms(3,4)
proof (induction ks arbitrary: tk)
  case Nil
  then show ?case by simp
next
  case (Cons k ks)
  then have "k \<in> set (map fst (own_entries u))" by simp
  from add_entry_total [OF assms(1,2) this Cons.prems(2)] obtain tk' where
    "add_entry u tk k = Inr tk'" "counted tk'" by blast
  with Cons.IH [of tk'] Cons.prems(1) show ?case by simp
qed

lemma aggregateTokens_total:
  assumes "usage_ok u"
  shows "\<exists>tk. aggregateTokens u = Inr tk \<and> counted tk"
proof (cases "truthy u")
  case True
  have "counted no_tokens" by (simp add: counted_def no_tokens_def)
  from fold_total [OF assms True _ this, of "map fst (own_entries u)"] True
  show ?thesis by (simp add: aggregateTokens_def)
next
  case False
  then show ?thesis by (simp add: aggregateTokens_def counted_def no_tokens_def)
qed

lemma doc_not_nullish: "doc testRun side = Inr d \<Longrightarrow> \<not> nullish testRun"
  by (auto simp: doc_def get_def rbind_def split: if_splits)

lemma get_run_field: "\<not> nullish testRun \<Longrightarrow> get testRun k = Inr (read_prop testRun k)"
  by (simp add: get_def)

lemma side_tokens_total:
  assumes "doc testRun side = Inr d" and "usage_ok (oget d ''usage'')"
  shows "\<exists>tk. side_tokens testRun side = Inr tk \<and> counted tk"
  using assms aggregateTokens_total [of "oget d ''usage''"]
  by (simp add: side_tokens_def rbind_def)

lemma cells_total:
  assumes "run_ok testRun"
  shows "\<exists>c. accuracy_cell testRun = Inr c" "\<exists>c. accuracy_change_cell testRun = Inr c"
    "\<exists>c. confidence_cell testRun = Inr c" "\<exists>c. files_processed_cell testRun = Inr c"
    "\<exists>c. test_set_cell testRun = Inr c" "\<exists>c. precision_cell testRun = Inr c"
    "\<exists>c. recall_cell testRun = Inr c" "\<exists>c. f1_score_cell testRun = Inr c"
    "\<exists>c. test_cost_cell testRun = Inr c" "\<exists>c. baseline_cost_cell testRun = Inr c"
    "\<exists>c. cost_change_cell testRun = Inr c" "\<exists>c. test_input_tokens_cell testRun = Inr c"
    "\<exists>c. baseline_input_tokens_cell testRun = Inr c"
    "\<exists>c. total_token_change_cell testRun = Inr c"
proof -
  from assms obtain test baseline where
    t: "doc testRun ''test'' = Inr test" and b: "doc testRun ''baseline'' = Inr baseline"
    and tok: "test_ok test" and bok: "baseline_ok baseline"
    and s: "leaf_ok (read_prop testRun ''accuracySimilarity'')"
    by (auto simp: run_ok_def)
  have n: "\<not> nullish testRun" using t by (rule doc_not_nullish)
  show "\<exists>c. accuracy_cell testRun = Inr c"
    using t tok present_percent_total [of test "''accuracy''" "''accuracy''"]
    by (simp add: accuracy_cell_def rbind_def test_ok_def)
  show "\<exists>c. confidence_cell testRun = Inr c"
    using t tok present_percent_total [of test "''confidence''" "''average_confidence''"]
    by (simp add: confidence_cell_def rbind_def test_ok_def)
  show "\<exists>c. accuracy_change_cell testRun = Inr c"
    using s n
    by (cases "read_prop testRun ''accuracySimilarity''")
      (auto simp: accuracy_change_cell_def get_run_field rbind_def leaf_ok_def call_toFixed_def)
  show "\<exists>c. files_processed_cell testRun = Inr c"
    using n by (simp add: files_processed_cell_def get_run_field rbind_def)
  show "\<exists>c. test_set_cell testRun = Inr c"
    using n by (simp add: test_set_cell_def get_run_field rbind_def)
  show "\<exists>c. precision_cell testRun = Inr c"
    using t tok truthy_percent_total [of test "''accuracy''" "''precision''"]
    by (simp add: precision_cell_def rbind_def test_ok_def)
  show "\<exists>c. recall_cell testRun = Inr c"
    using t tok truthy_percent_total [of test "''accuracy''" "''recall''"]
    by (simp add: recall_cell_def rbind_def test_ok_def)
  show "\<exists>c. f1_score_cell testRun = Inr c"
    using t tok truthy_percent_total [of test "''accuracy''" "''f1_score''"]
    by (simp add: f1_score_cell_def rbind_def test_ok_def)
  show "\<exists>c. test_cost_cell testRun = Inr c"
    using t tok dollars_total [of test] by (simp add: test_cost_cell_def rbind_def test_ok_def)
  show "\<exists>c. baseline_cost_cell testRun = Inr c"
    using b bok dollars_total [of baseline]
    by (simp add: baseline_cost_cell_def rbind_def baseline_ok_def)
  show "\<exists>c. cost_change_cell testRun = Inr c"
    using t b tok bok cost_change_total [of test baseline]
    by (simp add: cost_change_cell_docs test_ok_def baseline_ok_def)
  from side_tokens_total [OF t] tok obtain tt where
    tt: "side_tokens testRun ''test'' = Inr tt" "counted tt" by (auto simp: test_ok_def)
  from side_tokens_total [OF b] bok obtain bt where
    bt: "side_tokens testRun ''baseline'' = Inr bt" "counted bt" by (auto simp: baseline_ok_def)
  show "\<exists>c. test_input_tokens_cell testRun = Inr c"
    using tt by (simp add: test_input_tokens_cell_def rbind_def)
  show "\<exists>c. baseline_input_tokens_cell testRun = Inr c"
    using bt by (simp add: baseline_input_tokens_cell_def rbind_def)
  from tt(2) bt(2) obtain x y where "totalTokens tt = Num x" "totalTokens bt = Num y"
    by (auto simp: counted_def)
  with calculateChange_total [of x y] tt bt
  show "\<exists>c. total_token_change_cell testRun = Inr c"
    by (auto simp: total_token_change_cell_def rbind_def)
qed

lemma map_result_total:
  assumes "\<And>x. x \<in> set xs \<Longrightarrow> \<exists>y. f x = Inr y"
  shows "\<exists>ys. map_result f xs = Inr ys"
  using assms
proof (induction xs)
  case Nil
  then show ?case by simp
next
  case (Cons x xs)
  then obtain y ys where "f x = Inr y" "map_result f xs = Inr ys"
    by (metis list.set_intros(1,2))
  then show ?case by simp
qed

lemma row_total:
  assumes "\<forall>x \<in> set runs. \<exists>c. f (snd x) = Inr c"
  shows "\<exists>i. row metric f runs = Inr i"
proof -
  have "\<exists>ys. map_result (\<lambda>(k, v). rbind (f v) (\<lambda>c. Inr (k, c))) runs = Inr ys"
  proof (rule map_result_total)
    fix x assume x: "x \<in> set runs"
    with assms obtain c where "f (snd x) = Inr c" by blast
    then show "\<exists>y. (case x of (k, v) \<Rightarrow> rbind (f v) (\<lambda>c. Inr (k, c))) = Inr y"
      by (cases x) (simp add: rbind_def)
  qed
  then show ?thesis by (auto simp: row_def rbind_def)
qed

lemma rows_total:
  assumes "\<forall>r \<in> set rs. \<forall>x \<in> set runs. \<exists>c. snd r (snd x) = Inr c"
  shows "\<exists>is. rows rs runs = Inr is"
  using assms
proof (induction rs)
  case Nil
  then show ?case by simp
next
  case (Cons r rs)
  obtain metric f where r: "r = (metric, f)" by (cases r)
  have "\<forall>x \<in> set runs. \<exists>c. f (snd x) = Inr c"
    using Cons.prems r by simp
  then obtain i where i: "row metric f runs = Inr i"
    using row_total by blast
  have "\<forall>r \<in> set rs. \<forall>x \<in> set runs. \<exists>c. snd r (snd x) = Inr c"
    using Cons.prems by simp
  then obtain "is" where "rows rs runs = Inr is"
    using Cons.IH by blast
  with i r show ?case by simp
qed

lemma table_total:
  assumes "\<forall>r \<in> set rs. \<forall>x \<in> set runs. \<exists>c. snd r (snd x) = Inr c"
  shows "\<exists>t. table_or text rs runs = Inr t"
  using rows_total [OF assms] by (auto simp: table_or_def rbind_def)

lemma tables_total:
  assumes "\<forall>x \<in> set runs. run_ok (snd x)"
  shows "\<exists>p. performance_metrics runs = Inr p" "\<exists>a. accuracy_breakdown runs = Inr a"
    "\<exists>c. cost_breakdown runs = Inr c" "\<exists>u. usage_breakdown runs = Inr u"
  unfolding performance_metrics_def accuracy_breakdown_def cost_breakdown_def usage_breakdown_def
  by (rule table_total; use assms cells_total in simp)+

lemma missing_cells:
  assumes "doc testRun ''test'' = Inr test" and "doc testRun ''baseline'' = Inr baseline"
  shows "nullish (opath test ''accuracy'' ''accuracy'') \<longrightarrow> accuracy_cell testRun = Inr NA"
    and "nullish (opath test ''confidence'' ''average_confidence'') \<longrightarrow> confidence_cell testRun = Inr NA"
    and "nullish (opath test ''accuracy'' ''precision'') \<longrightarrow> precision_cell testRun = Inr NA"
    and "nullish (opath test ''accuracy'' ''recall'') \<longrightarrow> recall_cell testRun = Inr NA"
    and "nullish (opath test ''accuracy'' ''f1_score'') \<longrightarrow> f1_score_cell testRun = Inr NA"
    and "nullish (opath test ''cost'' ''total_cost'') \<longrightarrow>
           test_cost_cell testRun = Inr NA \<and> cost_change_cell testRun = Inr NA"
    and "nullish (opath baseline ''cost'' ''total_cost'') \<longrightarrow>
           baseline_cost_cell testRun = Inr NA \<and> cost_change_cell testRun = Inr NA"
    and "nullish (read_prop testRun ''accuracySimilarity'') \<longrightarrow> accuracy_change_cell testRun = Inr NA"
    and "nullish (oget test ''usage'') \<longrightarrow>
           test_input_tokens_cell testRun = Inr (Localized (Num (Fin 0)))"
    and "nullish (oget baseline ''usage'') \<longrightarrow>
           baseline_input_tokens_cell testRun = Inr (Localized (Num (Fin 0)))
           \<and> (usage_ok (oget test ''usage'') \<longrightarrow> total_token_change_cell testRun = Inr NA)"
proof -
  have f: "\<not> truthy v" if "nullish v" for v using that by (cases v) auto
  have n: "\<not> nullish testRun" using assms(1) by (rule doc_not_nullish)
  show "nullish (opath test ''accuracy'' ''accuracy'') \<longrightarrow> accuracy_cell testRun = Inr NA"
    using assms by (simp add: accuracy_cell_def rbind_def present_percent_missing)
  show "nullish (opath test ''confidence'' ''average_confidence'') \<longrightarrow> confidence_cell testRun = Inr NA"
    using assms by (simp add: confidence_cell_def rbind_def present_percent_missing)
  show "nullish (opath test ''accuracy'' ''precision'') \<longrightarrow> precision_cell testRun = Inr NA"
    using assms f by (simp add: precision_cell_def rbind_def truthy_percent_falsy)
  show "nullish (opath test ''accuracy'' ''recall'') \<longrightarrow> recall_cell testRun = Inr NA"
    using assms f by (simp add: recall_cell_def rbind_def truthy_percent_falsy)
  show "nullish (opath test ''accuracy'' ''f1_score'') \<longrightarrow> f1_score_cell testRun = Inr NA"
    using assms f by (simp add: f1_score_cell_def rbind_def truthy_percent_falsy)
  show "nullish (opath test ''cost'' ''total_cost'') \<longrightarrow>
           test_cost_cell testRun = Inr NA \<and> cost_change_cell testRun = Inr NA"
    using assms f
    by (simp add: test_cost_cell_def rbind_def dollars_falsy cost_change_cell_docs cost_change_missing)
  show "nullish (opath baseline ''cost'' ''total_cost'') \<longrightarrow>
           baseline_cost_cell testRun = Inr NA \<and> cost_change_cell testRun = Inr NA"
    using assms f
    by (simp add: baseline_cost_cell_def rbind_def dollars_falsy cost_change_cell_docs cost_change_missing)
  show "nullish (read_prop testRun ''accuracySimilarity'') \<longrightarrow> accuracy_change_cell testRun = Inr NA"
    using n by (cases "read_prop testRun ''accuracySimilarity''")
      (simp_all add: accuracy_change_cell_def get_run_field rbind_def)
  show "nullish (oget test ''usage'') \<longrightarrow>
           test_input_tokens_cell testRun = Inr (Localized (Num (Fin 0)))"
    using assms f
    by (simp add: test_input_tokens_cell_def side_tokens_def rbind_def aggregateTokens_def no_tokens_def)
  show "nullish (oget baseline ''usage'') \<longrightarrow>
           baseline_input_tokens_cell testRun = Inr (Localized (Num (Fin 0)))
           \<and> (usage_ok (oget test ''usage'') \<longrightarrow> total_token_change_cell testRun = Inr NA)"
  proof (intro impI conjI)
    assume b: "nullish (oget baseline ''usage'')"
    then have bt: "side_tokens testRun ''baseline'' = Inr no_tokens"
      using assms f by (simp add: side_tokens_def rbind_def aggregateTokens_def)
    then show "baseline_input_tokens_cell testRun = Inr (Localized (Num (Fin 0)))"
      by (simp add: baseline_input_tokens_cell_def rbind_def no_tokens_def)
    assume "usage_ok (oget test ''usage'')"
    from side_tokens_total [OF assms(1) this] obtain tt where
      "side_tokens testRun ''test'' = Inr tt" by blast
    with bt show "total_token_change_cell testRun = Inr NA"
      by (simp add: total_token_change_cell_def rbind_def calculateChange_def no_tokens_def)
  qed
qed

text \<open>
  Claim C7, as the code has it. Take complete runs each of which has its two documents
  at hand (objects, or text that parses) and, wherever the tables read a metric leaf,
  a number or nothing: the accuracy similarity, the accuracy, confidence, precision,
  recall and F1 score of the test document, the total cost of both documents, the token
  counts of the model-invocation entries of both usage documents. Any container on the
  way (\<^verbatim>\<open>accuracy\<close>, \<^verbatim>\<open>confidence\<close>, \<^verbatim>\<open>cost\<close>, \<^verbatim>\<open>usage\<close>, a usage entry) may be absent,
  null or not an object. Then the four tables are computed and nothing is thrown. For
  any run with its two documents, every accuracy, confidence and cost cell whose field
  is missing is \<^verbatim>\<open>N/A\<close>; a missing usage document gives the input token cell 0, and a
  missing baseline usage gives the token change \<^verbatim>\<open>N/A\<close>.
\<close>

theorem extraction_of_well_typed_runs:
  assumes "\<forall>x \<in> set runs. run_ok (snd x)"
  shows "(\<exists>p a c u. performance_metrics runs = Inr p \<and> accuracy_breakdown runs = Inr a
            \<and> cost_breakdown runs = Inr c \<and> usage_breakdown runs = Inr u)
       \<and> (doc testRun ''test'' = Inr test \<and> doc testRun ''baseline'' = Inr baseline \<longrightarrow>
            (nullish (opath test ''accuracy'' ''accuracy'') \<longrightarrow> accuracy_cell testRun = Inr NA)
          \<and> (nullish (opath test ''confidence'' ''average_confidence'') \<longrightarrow>
               confidence_cell testRun = Inr NA)
          \<and> (nullish (opath test ''accuracy'' ''precision'') \<longrightarrow> precision_cell testRun = Inr NA)
          \<and> (nullish (opath test ''accuracy'' ''recall'') \<longrightarrow> recall_cell testRun = Inr NA)
          \<and> (nullish (opath test ''accuracy'' ''f1_score'') \<longrightarrow> f1_score_cell testRun = Inr NA)
          \<and> (nullish (opath test ''cost'' ''total_cost'') \<longrightarrow>
               test_cost_cell testRun = Inr NA \<and> cost_change_cell testRun = Inr NA)
          \<and> (nullish (opath baseline ''cost'' ''total_cost'') \<longrightarrow>
               baseline_cost_cell testRun = Inr NA \<and> cost_change_cell testRun = Inr NA)
          \<and> (nullish (read_prop testRun ''accuracySimilarity'') \<longrightarrow>
               accuracy_change_cell testRun = Inr NA)
          \<and> (nullish (oget test ''usage'') \<longrightarrow>
               test_input_tokens_cell testRun = Inr (Localized (Num (Fin 0))))
          \<and> (nullish (oget baseline ''usage'') \<longrightarrow>
               baseline_input_tokens_cell testRun = Inr (Localized (Num (Fin 0)))
               \<and> (usage_ok (oget test ''usage'') \<longrightarrow> total_token_change_cell testRun = Inr NA)))"
proof (intro conjI impI)
  show "\<exists>p a c u. performance_metrics runs = Inr p \<and> accuracy_breakdown runs = Inr a
            \<and> cost_breakdown runs = Inr c \<and> usage_breakdown runs = Inr u"
    using tables_total [OF assms] by blast
qed (use missing_cells [of testRun test baseline] in blast)+

text \<open>A run with every field, and a run with none.\<close>

lemma full_run_docs:
  "doc full_run ''test'' =
     Inr (Obj [(''accuracy'', Obj [(''accuracy'', Num (Fin (7 / 8))), (''precision'', Num (Fin (3 / 4))),
                                          (''recall'', Num (Fin (1 / 2))), (''f1_score'', Num (Fin (5 / 8)))]),
                     (''confidence'', Obj [(''average_confidence'', Num (Fin (13 / 16)))]),
                     (''cost'', Obj [(''total_cost'', Num (Fin 10))]),
                     (''usage'', demo_usage)])"
  "doc full_run ''baseline'' =
     Inr (Obj [(''cost'', Obj [(''total_cost'', Num (Fin 8))]),
               (''usage'', Obj [(''bedrock/nova-pro'', Obj [(''totalTokens'', Num (Fin 100))])])])"
  by (simp_all add: full_run_def doc_def get_def rbind_def read_prop_def parsed_def)

lemma empty_run_docs:
  "doc empty_run ''test'' = Inr (Obj [])" "doc empty_run ''baseline'' = Inr (Obj [])"
  by (simp_all add: empty_run_def run_of_def doc_def get_def rbind_def read_prop_def parsed_def)

lemma full_run_ok: "run_ok full_run"
  unfolding run_ok_def full_run_docs
  by (simp add: test_ok_def baseline_ok_def usage_ok_def leaf_ok_def opath_def oget_def
      read_prop_def demo_usage_def full_run_def)

lemma empty_run_ok: "run_ok empty_run"
  unfolding run_ok_def empty_run_docs
  by (simp add: test_ok_def baseline_ok_def usage_ok_def leaf_ok_def opath_def oget_def
      read_prop_def empty_run_def run_of_def)

theorem extraction_of_well_typed_runs_witness:
  "(\<exists>p a c u. performance_metrics [(''run-1'', full_run), (''run-2'', empty_run)] = Inr p
       \<and> accuracy_breakdown [(''run-1'', full_run), (''run-2'', empty_run)] = Inr a
       \<and> cost_breakdown [(''run-1'', full_run), (''run-2'', empty_run)] = Inr c
       \<and> usage_breakdown [(''run-1'', full_run), (''run-2'', empty_run)] = Inr u)
   \<and> accuracy_cell empty_run = Inr NA \<and> confidence_cell empty_run = Inr NA
   \<and> precision_cell empty_run = Inr NA \<and> test_cost_cell empty_run = Inr NA
   \<and> cost_change_cell empty_run = Inr NA \<and> accuracy_change_cell empty_run = Inr NA
   \<and> test_input_tokens_cell empty_run = Inr (Localized (Num (Fin 0)))
   \<and> total_token_change_cell empty_run = Inr NA"
proof -
  have ok: "\<forall>x \<in> set [(''run-1'', full_run), (''run-2'', empty_run)]. run_ok (snd x)"
    by (simp add: full_run_ok empty_run_ok)
  have m: "nullish (opath (Obj []) a b)" "nullish (oget (Obj []) a)"
    "nullish (read_prop empty_run ''accuracySimilarity'')" "usage_ok (oget (Obj []) ''usage'')" for a b
    by (simp_all add: opath_def oget_def read_prop_def empty_run_def run_of_def usage_ok_def)
  from extraction_of_well_typed_runs [OF ok, of empty_run "Obj []" "Obj []"] empty_run_docs m
  show ?thesis by simp
qed

lemmas doc_eval = rbind_def present_percent_def truthy_percent_def dollars_def
  cost_change_def opath_def oget_def read_prop_def path_def get_def percent_def js_mul_def
  to_number_def call_toFixed_def digits_eval double_eval
  relative_change_def js_sub_def num_sub_def up_arrow_def down_arrow_def

lemma full_run_cells:
  "accuracy_cell full_run = Inr (Text ''87.50%'')"
  "confidence_cell full_run = Inr (Text ''81.25%'')"
  "precision_cell full_run = Inr (Text ''75.00%'')"
  "recall_cell full_run = Inr (Text ''50.00%'')"
  "f1_score_cell full_run = Inr (Text ''62.50%'')"
  "test_cost_cell full_run = Inr (Text ''$10.0000'')"
  "baseline_cost_cell full_run = Inr (Text ''$8.0000'')"
  "cost_change_cell full_run = Inr (Text (''25.00%'' @ up_arrow))"
  by (simp_all add: accuracy_cell_def confidence_cell_def precision_cell_def recall_cell_def
      f1_score_cell_def test_cost_cell_def baseline_cost_cell_def cost_change_cell_def
      full_run_docs doc_eval)

lemma full_run_fields:
  "accuracy_change_cell full_run = Inr (Text ''0.50'')"
  "files_processed_cell full_run = Inr (Shown (Num (Fin 3)))"
  "test_set_cell full_run = Inr (Shown (Str ''invoices''))"
  by (simp_all add: accuracy_change_cell_def files_processed_cell_def test_set_cell_def
      full_run_def or_NA_def doc_eval)

lemma full_run_tokens:
  "test_input_tokens_cell full_run = Inr (Localized (Num (Fin 150)))"
  "baseline_input_tokens_cell full_run = Inr (Localized (Num (Fin 0)))"
  "total_token_change_cell full_run = Inr (Text (''70%'' @ up_arrow))"
  by (simp_all add: test_input_tokens_cell_def baseline_input_tokens_cell_def
      total_token_change_cell_def side_tokens_def full_run_docs aggregateTokens_def
      add_entry_def no_tokens_def or_zero_def js_add_def demo_usage_def
      calculateChange_def doc_eval text_eval)

lemma text_cost_run_docs:
  "doc text_cost_run ''test'' = Inr (cost_doc (Str ''1.5''))"
  "doc text_cost_run ''baseline'' = Inr (cost_doc (Num (Fin 1)))"
  by (simp_all add: text_cost_run_def run_of_def cost_doc_def doc_def get_def rbind_def
      read_prop_def parsed_def)

lemma text_cost_run_cells:
  "accuracy_cell text_cost_run = Inr NA"
  "confidence_cell text_cost_run = Inr NA"
  "precision_cell text_cost_run = Inr NA"
  "recall_cell text_cost_run = Inr NA"
  "f1_score_cell text_cost_run = Inr NA"
  "test_cost_cell text_cost_run = Inl TypeError"
  by (simp_all add: accuracy_cell_def confidence_cell_def precision_cell_def recall_cell_def
      f1_score_cell_def test_cost_cell_def text_cost_run_docs cost_doc_def doc_eval)

lemma text_cost_run_fields:
  "accuracy_change_cell text_cost_run = Inr NA"
  "files_processed_cell text_cost_run = Inr NA"
  "test_set_cell text_cost_run = Inr NA"
  by (simp_all add: accuracy_change_cell_def files_processed_cell_def test_set_cell_def
      text_cost_run_def run_of_def or_NA_def doc_eval)

lemma two_runs_complete:
  "completeTestRuns (Obj [(''run-1'', full_run), (''run-2'', text_cost_run)]) =
     Inr [(''run-1'', full_run), (''run-2'', text_cost_run)]"
  "hasIncompleteRuns (Obj [(''run-1'', full_run), (''run-2'', text_cost_run)]) = Inr False"
proof -
  have "status_is_COMPLETE full_run = Inr True" "status_is_COMPLETE text_cost_run = Inr True"
    by (simp_all add: status_is_COMPLETE_def full_run_def text_cost_run_def run_of_def get_def
        read_prop_def rbind_def)
  then show "completeTestRuns (Obj [(''run-1'', full_run), (''run-2'', text_cost_run)]) =
     Inr [(''run-1'', full_run), (''run-2'', text_cost_run)]"
    "hasIncompleteRuns (Obj [(''run-1'', full_run), (''run-2'', text_cost_run)]) = Inr False"
    by (simp_all add: completeTestRuns_def hasIncompleteRuns_def rbind_def)
qed

lemma two_runs_tables:
  "performance_metrics [(''run-1'', full_run), (''run-2'', text_cost_run)] =
     Inr (Table [(''Accuracy'', [(''run-1'', Text ''87.50%''), (''run-2'', NA)]),
                 (''Accuracy Change'', [(''run-1'', Text ''0.50''), (''run-2'', NA)]),
                 (''Confidence'', [(''run-1'', Text ''81.25%''), (''run-2'', NA)]),
                 (''Files Processed'', [(''run-1'', Shown (Num (Fin 3))), (''run-2'', NA)])])"
  "accuracy_breakdown [(''run-1'', full_run), (''run-2'', text_cost_run)] =
     Inr (Table [(''Test Set'', [(''run-1'', Shown (Str ''invoices'')), (''run-2'', NA)]),
                 (''Test Precision'', [(''run-1'', Text ''75.00%''), (''run-2'', NA)]),
                 (''Test Recall'', [(''run-1'', Text ''50.00%''), (''run-2'', NA)]),
                 (''Test F1 Score'', [(''run-1'', Text ''62.50%''), (''run-2'', NA)])])"
  "cost_breakdown [(''run-1'', full_run), (''run-2'', text_cost_run)] = Inl TypeError"
  by (simp_all add: performance_metrics_def accuracy_breakdown_def cost_breakdown_def
      table_or_def row_def rbind_def full_run_cells full_run_fields text_cost_run_cells
      text_cost_run_fields)

text \<open>
  The claim as it was stated lets a field hold any value. A total cost given as the
  text \<^verbatim>\<open>1.5\<close> has no \<^verbatim>\<open>toFixed\<close>: the Test Cost cell throws, the Cost Breakdown
  table is lost with it, the cells of the well-formed first run included, and so is the
  whole component. And a missing usage document gives the input token cell 0, not
  \<^verbatim>\<open>N/A\<close>.
\<close>

theorem extraction_counterexample:
  "test_cost_cell text_cost_run = Inl TypeError
   \<and> cost_breakdown [(''run-1'', full_run), (''run-2'', text_cost_run)] = Inl TypeError
   \<and> TestComparison False
        (Obj [(''metrics'', Obj [(''run-1'', full_run), (''run-2'', text_cost_run)])])
        [''run-1'', ''run-2''] = Inl TypeError
   \<and> test_input_tokens_cell empty_run = Inr (Localized (Num (Fin 0)))
   \<and> Localized (Num (Fin 0)) \<noteq> NA"
proof -
  have m: "read_prop (Obj [(''metrics'', Obj [(''run-1'', full_run), (''run-2'', text_cost_run)])])
             ''metrics'' = Obj [(''run-1'', full_run), (''run-2'', text_cost_run)]"
    and c: "read_prop (Obj [(''metrics'', Obj [(''run-1'', full_run), (''run-2'', text_cost_run)])])
             ''configs'' = Undefined"
    and e: "read_prop (Obj [(''metrics'', Obj [(''run-1'', full_run), (''run-2'', text_cost_run)])])
             ''error'' = Undefined"
    by (simp_all add: read_prop_def)
  have d: "configuration_differences [''run-1'', ''run-2''] Undefined = Inr NoConfigData"
    by (simp add: configuration_differences_def has_items_def rbind_def)
  have "compared [''run-1'', ''run-2'']
          (Obj [(''metrics'', Obj [(''run-1'', full_run), (''run-2'', text_cost_run)])])
        = Inl TypeError"
    by (simp add: compared_def Let_def m c two_runs_complete d two_runs_tables rbind_def)
  then have "TestComparison False
        (Obj [(''metrics'', Obj [(''run-1'', full_run), (''run-2'', text_cost_run)])])
        [''run-1'', ''run-2''] = Inl TypeError"
    by (simp add: TestComparison_def e rbind_def)
  moreover have "test_input_tokens_cell empty_run = Inr (Localized (Num (Fin 0)))"
    by (simp add: test_input_tokens_cell_def side_tokens_def empty_run_docs rbind_def
        aggregateTokens_def no_tokens_def oget_def read_prop_def)
  ultimately show ?thesis
    by (simp add: text_cost_run_cells two_runs_tables)
qed

section \<open>What the columns draw\<close>

text \<open>
  The renderers on the strings of the scenarios: the Cost Change column draws the
  magnitude, so a change of \<^verbatim>\<open>-50.00%\<close> appears as \<^verbatim>\<open>50.00%\<close> with the down arrow, and
  \<^verbatim>\<open>25.00%\<close> with the up arrow and \<^verbatim>\<open>N/A\<close> appear as the row has them. The Total Token
  Change column draws the arrow-less \<^verbatim>\<open>0%\<close> of \<^verbatim>\<open>calculateChange\<close> as \<^verbatim>\<open>0.00%\<close> with the
  down arrow.
\<close>

lemmas draw_eval = costChangeCell_def usageChangeCell_def renderChangeValue_def leading_number_def
  is_digit_def text_eval up_arrow_def down_arrow_def digits_eval double_eval

lemma drawn_changes:
  "costChangeCell (''25.00%'' @ up_arrow) = Arrowed ''25.00%'' ''red'' up_arrow"
  "costChangeCell ''N/A'' = Plain ''N/A''"
  "costChangeCell (''0.00%'' @ down_arrow) = Arrowed ''0.00%'' ''green'' down_arrow"
  "costChangeCell (''-50.00%'' @ down_arrow) = Arrowed ''50.00%'' ''green'' down_arrow"
  "usageChangeCell (''70%'' @ up_arrow) = Arrowed ''70.00%'' ''red'' up_arrow"
  "usageChangeCell ''0%'' = Arrowed ''0.00%'' ''green'' down_arrow"
  "renderChangeValue ''0.50'' = Arrowed ''0.50%'' ''green'' up_arrow"
  by (simp_all add: draw_eval)

end
